theory Spec2Isabelle
  imports Main
begin

section \<open>Tensors\<close>

text \<open>
  A tensor is its shape together with its elements in row-major (logical) order, as
  \<^verbatim>\<open>torch.Tensor\<close> presents them. The element type stands for the floating-point
  numbers of the program and is a parameter: no law of arithmetic is assumed of it, and a
  property that needs one says so of the entries. Exceptions of Python and torch are values
  of \<open>error\<close>.
\<close>

datatype error = AssertionError | IndexError | ValueError | RuntimeError

record 'a tensor =
  shape :: "nat list"
  elems :: "'a list"

definition wf_tensor :: "'a tensor \<Rightarrow> bool" where
  "wf_tensor t \<longleftrightarrow> length (elems t) = prod_list (shape t)"

text \<open>\<open>rows n d xs\<close> cuts a row-major element list into \<open>n\<close> consecutive blocks of \<open>d\<close>.\<close>

definition rows :: "nat \<Rightarrow> nat \<Rightarrow> 'a list \<Rightarrow> 'a list list" where
  "rows n d xs = map (\<lambda>i. take d (drop (i * d) xs)) [0..<n]"

text \<open>
  \<^verbatim>\<open>x.narrow(k, start, len)\<close>: the slice \<^verbatim>\<open>start : start + len\<close> of dimension \<open>k\<close>.
  The slices \<^verbatim>\<open>x[..., :h]\<close> and \<^verbatim>\<open>x[..., h:]\<close> of the program are narrowings of the
  last dimension.
\<close>

definition narrow :: "nat \<Rightarrow> nat \<Rightarrow> nat \<Rightarrow> 'a tensor \<Rightarrow> 'a tensor" where
  "narrow k start len t =
     (let s = shape t; inner = prod_list (drop (Suc k) s)
      in \<lparr>shape = s[k := len],
          elems = concat (map (\<lambda>blk. take (len * inner) (drop (start * inner) blk))
                              (rows (prod_list (take k s)) (s ! k * inner) (elems t)))\<rparr>)"

definition neg :: "'a::uminus tensor \<Rightarrow> 'a tensor" where
  "neg t = \<lparr>shape = shape t, elems = map uminus (elems t)\<rparr>"

text \<open>
  \<^verbatim>\<open>torch.cat((a, b), dim=k)\<close>. The shapes must agree outside dimension \<open>k\<close>; torch
  skips an operand that is a one-dimensional empty tensor (shape \<open>[0]\<close>).
\<close>

definition cat_strict :: "'a tensor \<Rightarrow> 'a tensor \<Rightarrow> nat \<Rightarrow> error + 'a tensor" where
  "cat_strict a b k =
     (let sa = shape a; sb = shape b
      in if length sa \<noteq> length sb then Inl RuntimeError
         else if \<not> k < length sa then Inl IndexError
         else if take k sa \<noteq> take k sb \<or> drop (Suc k) sa \<noteq> drop (Suc k) sb then Inl RuntimeError
         else Inr \<lparr>shape = sa[k := sa ! k + sb ! k],
                   elems = concat (map2 (@)
                     (rows (prod_list (take k sa)) (prod_list (drop k sa)) (elems a))
                     (rows (prod_list (take k sb)) (prod_list (drop k sb)) (elems b)))\<rparr>)"

definition cat :: "'a tensor \<Rightarrow> 'a tensor \<Rightarrow> nat \<Rightarrow> error + 'a tensor" where
  "cat a b k =
     (if shape a = [0] then (if k < length (shape b) then Inr b else Inl IndexError)
      else if shape b = [0] then (if k < length (shape a) then Inr a else Inl IndexError)
      else cat_strict a b k)"

text \<open>
  Multi-indices of a shape in row-major order, and the position of a multi-index in the
  element list.
\<close>

fun indices :: "nat list \<Rightarrow> nat list list" where
  "indices [] = [[]]"
| "indices (n # s) = concat (map (\<lambda>i. map ((#) i) (indices s)) [0..<n])"

fun offset :: "nat list \<Rightarrow> nat list \<Rightarrow> nat" where
  "offset (n # s) (i # idx) = i * prod_list s + offset s idx"
| "offset _ _ = 0"

text \<open>
  Broadcasting of torch's elementwise operations: shapes are aligned at the last
  dimension; two sizes are compatible when they are equal or one of them is 1.
\<close>

fun broadcast_rev :: "nat list \<Rightarrow> nat list \<Rightarrow> nat list option" where
  "broadcast_rev [] bs = Some bs"
| "broadcast_rev (a # as) [] = Some (a # as)"
| "broadcast_rev (a # as) (b # bs) =
     (if a = b \<or> b = 1 then map_option ((#) a) (broadcast_rev as bs)
      else if a = 1 then map_option ((#) b) (broadcast_rev as bs)
      else None)"

definition broadcast_shapes :: "nat list \<Rightarrow> nat list \<Rightarrow> nat list option" where
  "broadcast_shapes sa sb = map_option rev (broadcast_rev (rev sa) (rev sb))"

definition bc_index :: "nat list \<Rightarrow> nat list \<Rightarrow> nat list" where
  "bc_index s idx = map2 (\<lambda>n i. if n = 1 then 0 else i) s (drop (length idx - length s) idx)"

definition broadcast_op :: "('a \<Rightarrow> 'b \<Rightarrow> 'c) \<Rightarrow> 'a tensor \<Rightarrow> 'b tensor \<Rightarrow> error + 'c tensor" where
  "broadcast_op f a b =
     (case broadcast_shapes (shape a) (shape b) of
        None \<Rightarrow> Inl RuntimeError
      | Some s \<Rightarrow>
          Inr \<lparr>shape = s,
               elems = map (\<lambda>idx. f (elems a ! offset (shape a) (bc_index (shape a) idx))
                                     (elems b ! offset (shape b) (bc_index (shape b) idx)))
                           (indices s)\<rparr>)"

definition mul :: "'a::times tensor \<Rightarrow> 'a tensor \<Rightarrow> error + 'a tensor" where
  "mul a b = broadcast_op (*) a b"

definition add :: "'a::plus tensor \<Rightarrow> 'a tensor \<Rightarrow> error + 'a tensor" where
  "add a b = broadcast_op (+) a b"

text \<open>\<^verbatim>\<open>t.squeeze(k)\<close> and \<^verbatim>\<open>t.unsqueeze(k)\<close>.\<close>

definition squeeze :: "nat \<Rightarrow> 'a tensor \<Rightarrow> error + 'a tensor" where
  "squeeze k t =
     (if shape t = [] then (if k = 0 then Inr t else Inl IndexError)
      else if \<not> k < length (shape t) then Inl IndexError
      else if shape t ! k = 1
        then Inr \<lparr>shape = take k (shape t) @ drop (Suc k) (shape t), elems = elems t\<rparr>
      else Inr t)"

definition unsqueeze :: "nat \<Rightarrow> 'a tensor \<Rightarrow> error + 'a tensor" where
  "unsqueeze k t =
     (if k \<le> length (shape t)
        then Inr \<lparr>shape = take k (shape t) @ [1] @ drop k (shape t), elems = elems t\<rparr>
      else Inl IndexError)"

text \<open>
  \<^verbatim>\<open>t[idx]\<close> for an integer index tensor selects rows of the first dimension (a
  negative index counts from the end, an index out of range raises); \<^verbatim>\<open>t[None]\<close>
  inserts a leading dimension.
\<close>

definition index_rows :: "'a tensor \<Rightarrow> int tensor option \<Rightarrow> error + 'a tensor" where
  "index_rows t idx =
     (case idx of
        None \<Rightarrow> unsqueeze 0 t
      | Some p \<Rightarrow>
          (case shape t of
             [] \<Rightarrow> Inl IndexError
           | n # rest \<Rightarrow>
               if \<forall>i\<in>set (elems p). - int n \<le> i \<and> i < int n
               then Inr \<lparr>shape = shape p @ rest,
                         elems = concat (map (\<lambda>i. let j = nat (if i < 0 then i + int n else i)
                                                   in take (prod_list rest) (drop (j * prod_list rest) (elems t)))
                                             (elems p))\<rparr>
               else Inl IndexError))"

text \<open>
  \<^verbatim>\<open>t.view(s)\<close> and \<^verbatim>\<open>t.reshape(s)\<close> keep the row-major elements;
  \<^verbatim>\<open>t.transpose(i, j)\<close> exchanges two dimensions; \<^verbatim>\<open>t.flatten(0, 1)\<close> merges the
  first two.
\<close>

definition view :: "nat list \<Rightarrow> 'a tensor \<Rightarrow> error + 'a tensor" where
  "view s t = (if prod_list s = prod_list (shape t) then Inr \<lparr>shape = s, elems = elems t\<rparr>
               else Inl RuntimeError)"

definition reshape :: "nat list \<Rightarrow> 'a tensor \<Rightarrow> error + 'a tensor" where
  "reshape s t = (if prod_list s = prod_list (shape t) then Inr \<lparr>shape = s, elems = elems t\<rparr>
                  else Inl RuntimeError)"

definition swap :: "nat \<Rightarrow> nat \<Rightarrow> 'b list \<Rightarrow> 'b list" where
  "swap i j xs = xs[i := xs ! j, j := xs ! i]"

definition transpose_dims :: "nat \<Rightarrow> nat \<Rightarrow> 'a tensor \<Rightarrow> error + 'a tensor" where
  "transpose_dims i j t =
     (if i < length (shape t) \<and> j < length (shape t)
        then Inr \<lparr>shape = swap i j (shape t),
                  elems = map (\<lambda>idx. elems t ! offset (shape t) (swap i j idx))
                              (indices (swap i j (shape t)))\<rparr>
      else Inl IndexError)"

definition flatten01 :: "'a tensor \<Rightarrow> error + 'a tensor" where
  "flatten01 t = (case shape t of
                    a # b # rest \<Rightarrow> Inr \<lparr>shape = a * b # rest, elems = elems t\<rparr>
                  | _ \<Rightarrow> Inl IndexError)"

text \<open>\<^verbatim>\<open>t.shape[-2]\<close>.\<close>

definition shape_m2 :: "'a tensor \<Rightarrow> error + nat" where
  "shape_m2 t = (if length (shape t) < 2 then Inl IndexError
                 else Inr (shape t ! (length (shape t) - 2)))"

text \<open>Sequencing of computations that may raise: the first error is the result.\<close>

definition bind_e :: "error + 'a \<Rightarrow> ('a \<Rightarrow> error + 'b) \<Rightarrow> error + 'b" where
  "bind_e m f = (case m of Inl e \<Rightarrow> Inl e | Inr x \<Rightarrow> f x)"

section \<open>Rotary position transform\<close>

text \<open>
  \<^verbatim>\<open>rotate_half\<close>: \<^verbatim>\<open>x.shape[-1]\<close> raises IndexError on a tensor without dimensions;
  \<^verbatim>\<open>dim=-1\<close> is the last dimension.
\<close>

definition rotate_half :: "'a::uminus tensor \<Rightarrow> error + 'a tensor" where
  "rotate_half x =
     (if shape x = [] then Inl IndexError
      else let r = length (shape x) - 1;
               d = last (shape x);
               x1 = narrow r 0 (d div 2) x;
               x2 = narrow r (d div 2) (d - d div 2) x
           in cat (neg x2) x1 r)"

text \<open>A row of the last dimension after \<^verbatim>\<open>rotate_half\<close>, for the proofs below.\<close>

definition rot :: "nat \<Rightarrow> 'a::uminus list \<Rightarrow> 'a list" where
  "rot h r = map uminus (drop h r) @ take h r"

text \<open>
  \<^verbatim>\<open>apply_rotary_pos_emb\<close>. The position index is \<^verbatim>\<open>position_ids\<close> or the packed
  \<^verbatim>\<open>indexes\<close>; either may be \<^verbatim>\<open>None\<close>.
\<close>

definition apply_rotary_pos_emb ::
  "'a::{times,plus,uminus} tensor \<Rightarrow> 'a tensor \<Rightarrow> 'a tensor \<Rightarrow> 'a tensor \<Rightarrow> int tensor option
     \<Rightarrow> error + ('a tensor \<times> 'a tensor)" where
  "apply_rotary_pos_emb q k cos sin position_ids =
     bind_e (bind_e (squeeze 1 cos) (squeeze 0)) (\<lambda>cos.
     bind_e (bind_e (squeeze 1 sin) (squeeze 0)) (\<lambda>sin.
     bind_e (bind_e (index_rows cos position_ids) (unsqueeze 1)) (\<lambda>cos.
     bind_e (bind_e (index_rows sin position_ids) (unsqueeze 1)) (\<lambda>sin.
     bind_e (bind_e (mul q cos) (\<lambda>qc. bind_e (bind_e (rotate_half q) (\<lambda>rq. mul rq sin)) (add qc)))
       (\<lambda>q_embed.
     bind_e (bind_e (mul k cos) (\<lambda>kc. bind_e (bind_e (rotate_half k) (\<lambda>rk. mul rk sin)) (add kc)))
       (\<lambda>k_embed.
     Inr (q_embed, k_embed)))))))"

section \<open>The attention layer\<close>

text \<open>
  The module (\<^verbatim>\<open>self\<close>): its sizes, its four linear projections and the provider of the
  rotary tables, which are code outside this repository and so are parameters.
\<close>

record 'a attention =
  hidden_size :: nat
  num_heads :: nat
  head_dim :: nat
  q_proj :: "'a tensor \<Rightarrow> 'a tensor"
  k_proj :: "'a tensor \<Rightarrow> 'a tensor"
  v_proj :: "'a tensor \<Rightarrow> 'a tensor"
  o_proj :: "'a tensor \<Rightarrow> 'a tensor"
  rotary_emb :: "'a tensor \<Rightarrow> nat \<Rightarrow> 'a tensor \<times> 'a tensor"

text \<open>
  The attention kernels and the two import-time flags. The kernels are external: each is a
  function that may raise. \<^verbatim>\<open>flash_attn_func q k v causal\<close>;
  \<^verbatim>\<open>flash_attn_varlen_func q k v cu_seqlens_q cu_seqlens_k max_seqlen_q max_seqlen_k
  causal\<close> (the dropout 0 and \<^verbatim>\<open>return_attn_probs=False\<close> of the call are constants);
  \<^verbatim>\<open>memory_efficient_attention q k v\<close> with the lower-triangular bias;
  \<^verbatim>\<open>scaled_dot_product_attention q k v attn_mask\<close>.
\<close>

record 'a kernels =
  SUPPORT_XFORMERS :: bool
  SUPPORT_FLASH2 :: bool
  flash_attn_func :: "'a tensor \<Rightarrow> 'a tensor \<Rightarrow> 'a tensor \<Rightarrow> bool \<Rightarrow> error + 'a tensor"
  flash_attn_varlen_func ::
    "'a tensor \<Rightarrow> 'a tensor \<Rightarrow> 'a tensor \<Rightarrow> int list \<Rightarrow> int list \<Rightarrow> int option \<Rightarrow> int option
       \<Rightarrow> bool \<Rightarrow> error + 'a tensor"
  memory_efficient_attention :: "'a tensor \<Rightarrow> 'a tensor \<Rightarrow> 'a tensor \<Rightarrow> error + 'a tensor"
  scaled_dot_product_attention ::
    "'a tensor \<Rightarrow> 'a tensor \<Rightarrow> 'a tensor \<Rightarrow> 'a tensor option \<Rightarrow> error + 'a tensor"

text \<open>
  The message hub \<^verbatim>\<open>for_flash_attn\<close>: one entry per rank for each of the keys
  \<^verbatim>\<open>cumulative_len_rank_{rank}\<close> (a list with one one-dimensional tensor of boundaries
  per sample), \<^verbatim>\<open>indexes_rank_{rank}\<close> and \<^verbatim>\<open>max_seqlen_rank_{rank}\<close>.
  \<^verbatim>\<open>get_info\<close> gives \<^verbatim>\<open>None\<close> for a key that is not there, and otherwise the stored
  object itself, not a copy: what the caller changes in place is changed in the hub.
\<close>

record message_hub =
  cumulative_len_rank :: "nat \<Rightarrow> int list list option"
  indexes_rank :: "nat \<Rightarrow> int tensor option"
  max_seqlen_rank :: "nat \<Rightarrow> int option"

text \<open>Lines 65-66: the layout assertion of the packed layout.\<close>

definition check_layout :: "int list list option \<Rightarrow> nat \<Rightarrow> nat \<Rightarrow> error + unit" where
  "check_layout cumulative_len bsz q_len =
     (case cumulative_len of
        None \<Rightarrow> Inr ()
      | Some cl \<Rightarrow>
          if length cl \<noteq> bsz then Inl AssertionError
          else (case cl of
                  [] \<Rightarrow> Inl IndexError
                | c0 # _ \<Rightarrow>
                    if c0 = [] then Inl IndexError
                    else if last c0 = int q_len then Inr ()
                    else Inl AssertionError))"

text \<open>Lines 68-76: projection, split into heads, heads before positions.\<close>

definition project_heads ::
  "('a tensor \<Rightarrow> 'a tensor) \<Rightarrow> 'a tensor \<Rightarrow> nat \<Rightarrow> nat \<Rightarrow> nat \<Rightarrow> nat \<Rightarrow> error + 'a tensor" where
  "project_heads proj hidden_states bsz q_len n_heads h_dim =
     bind_e (view [bsz, q_len, n_heads, h_dim] (proj hidden_states)) (transpose_dims 1 2)"

text \<open>Lines 68-84: the three head-split states, query and key rotated.\<close>

definition rotated_states ::
  "'a::{times,plus,uminus} attention \<Rightarrow> 'a tensor \<Rightarrow> nat \<Rightarrow> nat \<Rightarrow> int tensor option
     \<Rightarrow> ('a tensor \<times> 'a tensor) option \<Rightarrow> error + ('a tensor \<times> 'a tensor \<times> 'a tensor)" where
  "rotated_states self hidden_states bsz q_len position_index past_key_value =
     bind_e (project_heads (q_proj self) hidden_states bsz q_len (num_heads self) (head_dim self))
       (\<lambda>query_states.
     bind_e (project_heads (k_proj self) hidden_states bsz q_len (num_heads self) (head_dim self))
       (\<lambda>key_states.
     bind_e (project_heads (v_proj self) hidden_states bsz q_len (num_heads self) (head_dim self))
       (\<lambda>value_states.
     bind_e (shape_m2 key_states) (\<lambda>kv_seq_len.
     bind_e (case past_key_value of
               None \<Rightarrow> Inr kv_seq_len
             | Some (past_key, _) \<Rightarrow> bind_e (shape_m2 past_key) (\<lambda>n. Inr (kv_seq_len + n)))
       (\<lambda>kv_seq_len.
     case rotary_emb self value_states kv_seq_len of (cos, sin) \<Rightarrow>
     bind_e (apply_rotary_pos_emb query_states key_states cos sin position_index)
       (\<lambda>(query_states, key_states).
     Inr (query_states, key_states, value_states)))))))"

text \<open>Lines 87-90: merging the cache of earlier decoding steps.\<close>

definition kv_merge ::
  "('a tensor \<times> 'a tensor) option \<Rightarrow> 'a tensor \<Rightarrow> 'a tensor \<Rightarrow> error + ('a tensor \<times> 'a tensor)" where
  "kv_merge past_key_value key_states value_states =
     (case past_key_value of
        None \<Rightarrow> Inr (key_states, value_states)
      | Some (past_key, past_value) \<Rightarrow>
          bind_e (cat past_key key_states 2) (\<lambda>key_states.
          bind_e (cat past_value value_states 2) (\<lambda>value_states.
          Inr (key_states, value_states))))"

text \<open>
  Lines 106-108: \<^verbatim>\<open>cumulative_len[i] += q_len * i\<close> for \<open>i\<close> from 1 below
  \<^verbatim>\<open>bsz\<close>, then \<^verbatim>\<open>torch.cat\<close> of the list, which raises on an empty list. The
  assertion of line 66 has made the list \<^verbatim>\<open>bsz\<close> long.
\<close>

definition rebase :: "nat \<Rightarrow> nat \<Rightarrow> int list list \<Rightarrow> int list list" where
  "rebase bsz q_len cl =
     fold (\<lambda>i cl. cl[i := map (\<lambda>c. c + int (q_len * i)) (cl ! i)]) [1..<bsz] cl"

definition cat_boundaries :: "int list list \<Rightarrow> error + int list" where
  "cat_boundaries cl = (if cl = [] then Inl RuntimeError else Inr (concat cl))"

text \<open>
  Lines 94-133: the choice of the kernel. The in-place additions of line 107 act on the
  tensors of the list held by the hub, so the hub is returned with them. The entries that
  lines 58-60 read from the hub are read here, where they are used; nothing changes the
  hub in between.
\<close>

definition attention_dispatch ::
  "'a kernels \<Rightarrow> message_hub \<Rightarrow> nat \<Rightarrow> nat \<Rightarrow> nat \<Rightarrow> 'a tensor \<Rightarrow> 'a tensor \<Rightarrow> 'a tensor
     \<Rightarrow> 'a tensor option \<Rightarrow> message_hub \<times> (error + 'a tensor)" where
  "attention_dispatch lib hub rank bsz q_len query_states key_states value_states attention_mask =
     (if \<not> SUPPORT_FLASH2 lib then (hub, Inl AssertionError)
      else if SUPPORT_FLASH2 lib \<or> SUPPORT_XFORMERS lib then
        (case bind_e (transpose_dims 1 2 query_states) (\<lambda>q.
              bind_e (transpose_dims 1 2 key_states) (\<lambda>k.
              bind_e (transpose_dims 1 2 value_states) (\<lambda>v. Inr (q, k, v)))) of
           Inl e \<Rightarrow> (hub, Inl e)
         | Inr (query_states, key_states, value_states) \<Rightarrow>
             if SUPPORT_FLASH2 lib then
               (case cumulative_len_rank hub rank of
                  Some cumulative_len \<Rightarrow>
                    (case bind_e (flatten01 query_states) (\<lambda>q.
                          bind_e (flatten01 key_states) (\<lambda>k.
                          bind_e (flatten01 value_states) (\<lambda>v. Inr (q, k, v)))) of
                       Inl e \<Rightarrow> (hub, Inl e)
                     | Inr (q_unpad, k_unpad, v_unpad) \<Rightarrow>
                         (let cumulative_len = rebase bsz q_len cumulative_len;
                              hub = hub\<lparr>cumulative_len_rank :=
                                         (cumulative_len_rank hub)(rank := Some cumulative_len)\<rparr>
                          in (hub,
                              bind_e (cat_boundaries cumulative_len) (\<lambda>cumulative_len.
                                flash_attn_varlen_func lib q_unpad k_unpad v_unpad
                                  cumulative_len cumulative_len
                                  (max_seqlen_rank hub rank) (max_seqlen_rank hub rank) True))))
                | None \<Rightarrow> (hub, flash_attn_func lib query_states key_states value_states True))
             else (hub, memory_efficient_attention lib query_states key_states value_states))
      else (hub,
            bind_e (scaled_dot_product_attention lib query_states key_states value_states
                      attention_mask)
                   (transpose_dims 1 2)))"

text \<open>
  \<^verbatim>\<open>internlm_attn_forward\<close>. The result is the hub after the call and either the
  exception raised or the triple returned. Unpacking \<^verbatim>\<open>hidden_states.size()\<close> into three
  names raises ValueError for a tensor that has not three dimensions.
\<close>

definition internlm_attn_forward ::
  "'a::{times,plus,uminus} kernels \<Rightarrow> 'a attention \<Rightarrow> message_hub \<Rightarrow> nat \<Rightarrow> 'a tensor
     \<Rightarrow> 'a tensor option \<Rightarrow> int tensor option \<Rightarrow> ('a tensor \<times> 'a tensor) option \<Rightarrow> bool \<Rightarrow> bool
     \<Rightarrow> message_hub \<times> (error + 'a tensor \<times> 'a tensor option \<times> ('a tensor \<times> 'a tensor) option)" where
  "internlm_attn_forward lib self message_hub rank hidden_states attention_mask position_ids
       past_key_value output_attentions use_cache =
     (let cumulative_len = cumulative_len_rank message_hub rank;
          indexes = indexes_rank message_hub rank;
          use_local_attn = (cumulative_len \<noteq> None)
      in case shape hidden_states of
           [bsz, q_len, _] \<Rightarrow>
             (case bind_e (check_layout cumulative_len bsz q_len) (\<lambda>_.
                   bind_e (rotated_states self hidden_states bsz q_len
                             (if use_local_attn then indexes else position_ids) past_key_value)
                     (\<lambda>(query_states, key_states, value_states).
                   bind_e (kv_merge past_key_value key_states value_states)
                     (\<lambda>(key_states, value_states).
                   Inr (query_states, key_states, value_states)))) of
                Inl e \<Rightarrow> (message_hub, Inl e)
              | Inr (query_states, key_states, value_states) \<Rightarrow>
                  (let past_key_value = (if use_cache then Some (key_states, value_states) else None)
                   in case attention_dispatch lib message_hub rank bsz q_len
                             query_states key_states value_states attention_mask of
                        (message_hub, attn) \<Rightarrow>
                          (message_hub,
                           bind_e attn (\<lambda>attn_output.
                           bind_e (reshape [bsz, q_len, hidden_size self] attn_output)
                             (\<lambda>attn_output.
                           Inr (o_proj self attn_output, None, past_key_value))))))
         | _ \<Rightarrow> (message_hub, Inl ValueError))"

text \<open>
  For the proofs below: a shape \<open>s\<close> fits a shape \<open>r\<close> when broadcasting \<open>s\<close> against
  \<open>r\<close> gives \<open>r\<close>; \<open>gather\<close> is the element list of the rows that an index tensor
  selects from a table of \<open>len\<close> rows of \<open>dim\<close> entries.
\<close>

definition fits :: "nat list \<Rightarrow> nat list \<Rightarrow> bool" where
  "fits s r \<longleftrightarrow> list_all2 (\<lambda>a b. a = b \<or> a = 1) s r"

definition gather :: "nat \<Rightarrow> nat \<Rightarrow> 'a list \<Rightarrow> int list \<Rightarrow> 'a list" where
  "gather len dim e ps =
     concat (map (\<lambda>i. take dim (drop (nat (if i < 0 then i + int len else i) * dim) e)) ps)"

section \<open>Floating-point special values\<close>

text \<open>
  The entries of the program's tensors are floating-point numbers. A stand-in for them, on
  which the model is run at the special values: finite values (integers here, with exact
  arithmetic), the two infinities and NaN, with the IEEE rules for these: infinity times
  zero and the sum of opposite infinities are NaN, and NaN propagates. Rounding, overflow
  and the sign of zero are not modelled.
\<close>

datatype fl = Fin int | PInf | NInf | NaN

instantiation fl :: "{zero, one, uminus, times, plus}"
begin

definition zero_fl :: fl where "zero_fl = Fin 0"

definition one_fl :: fl where "one_fl = Fin 1"

fun uminus_fl :: "fl \<Rightarrow> fl" where
  "uminus_fl (Fin a) = Fin (- a)"
| "uminus_fl PInf = NInf"
| "uminus_fl NInf = PInf"
| "uminus_fl NaN = NaN"

fun times_fl :: "fl \<Rightarrow> fl \<Rightarrow> fl" where
  "times_fl NaN _ = NaN"
| "times_fl _ NaN = NaN"
| "times_fl (Fin a) (Fin b) = Fin (a * b)"
| "times_fl (Fin a) PInf = (if a = 0 then NaN else if 0 < a then PInf else NInf)"
| "times_fl (Fin a) NInf = (if a = 0 then NaN else if 0 < a then NInf else PInf)"
| "times_fl PInf (Fin b) = (if b = 0 then NaN else if 0 < b then PInf else NInf)"
| "times_fl NInf (Fin b) = (if b = 0 then NaN else if 0 < b then NInf else PInf)"
| "times_fl PInf PInf = PInf"
| "times_fl PInf NInf = NInf"
| "times_fl NInf PInf = NInf"
| "times_fl NInf NInf = PInf"

fun plus_fl :: "fl \<Rightarrow> fl \<Rightarrow> fl" where
  "plus_fl NaN _ = NaN"
| "plus_fl _ NaN = NaN"
| "plus_fl (Fin a) (Fin b) = Fin (a + b)"
| "plus_fl (Fin a) PInf = PInf"
| "plus_fl (Fin a) NInf = NInf"
| "plus_fl PInf (Fin b) = PInf"
| "plus_fl NInf (Fin b) = NInf"
| "plus_fl PInf PInf = PInf"
| "plus_fl NInf NInf = NInf"
| "plus_fl PInf NInf = NaN"
| "plus_fl NInf PInf = NaN"

instance ..

end

fun is_finite :: "fl \<Rightarrow> bool" where
  "is_finite (Fin _) = True"
| "is_finite _ = False"

text \<open>
  What the rotation at cosine 1 and sine 0 needs of the entries of a tensor, whatever the
  arithmetic: an entry times one, plus any entry or negated entry times zero, is the entry.
  Numbers of a ring have this property, and so have finite floating-point numbers; an
  infinity or a NaN has not.
\<close>

definition rotary_neutral :: "'a::{zero, one, uminus, times, plus} tensor \<Rightarrow> bool" where
  "rotary_neutral x \<longleftrightarrow>
     (\<forall>a\<in>set (elems x). \<forall>b\<in>set (elems x). a * 1 + b * 0 = a \<and> a * 1 + (- b) * 0 = a)"

section \<open>A small instance\<close>

text \<open>
  A concrete module and kernel library on which the model is run below: one head of
  dimension 2, the identity as query, value and output projection and the negation as key
  projection, a rotary table whose row \<open>p\<close> holds \<open>c + p\<close> (so cosine \<open>1 + p\<close> and
  sine \<open>p\<close>), flash kernels that return their query, a lower-triangular-bias kernel that
  returns its key and a reference kernel that returns its value.
\<close>

definition demo_table :: "int \<Rightarrow> nat \<Rightarrow> int tensor" where
  "demo_table c n = \<lparr>shape = [1, 1, n, 2], elems = concat (map (\<lambda>p. [c + int p, c + int p]) [0..<n])\<rparr>"

definition demo_self :: "int attention" where
  "demo_self = \<lparr>hidden_size = 2, num_heads = 1, head_dim = 2,
     q_proj = (\<lambda>t. t), k_proj = neg, v_proj = (\<lambda>t. t), o_proj = (\<lambda>t. t),
     rotary_emb = (\<lambda>v n. (demo_table 1 n, demo_table 0 n))\<rparr>"

definition demo_lib :: "bool \<Rightarrow> bool \<Rightarrow> int kernels" where
  "demo_lib xformers flash2 = \<lparr>SUPPORT_XFORMERS = xformers, SUPPORT_FLASH2 = flash2,
     flash_attn_func = (\<lambda>q k v causal. Inr q),
     flash_attn_varlen_func = (\<lambda>q k v cu_q cu_k max_q max_k causal. Inr q),
     memory_efficient_attention = (\<lambda>q k v. Inr k),
     scaled_dot_product_attention = (\<lambda>q k v m. Inr v)\<rparr>"

definition padded_hub :: message_hub where
  "padded_hub = \<lparr>cumulative_len_rank = (\<lambda>_. None), indexes_rank = (\<lambda>_. None),
                  max_seqlen_rank = (\<lambda>_. None)\<rparr>"

definition packed_hub :: "int list list \<Rightarrow> message_hub" where
  "packed_hub cl = \<lparr>cumulative_len_rank = (\<lambda>_. None)(0 := Some cl),
     indexes_rank = (\<lambda>_. None)(0 := Some \<lparr>shape = [2, 3], elems = [0, 1, 2, 0, 1, 2]\<rparr>),
     max_seqlen_rank = (\<lambda>_. None)(0 := Some 3)\<rparr>"

definition demo_hidden :: "int tensor" where
  "demo_hidden = \<lparr>shape = [2, 3, 2], elems = [1, 2, 3, 4, 5, 6, 7, 8, 9, 10, 11, 12]\<rparr>"

definition demo_position_ids :: "int tensor" where
  "demo_position_ids = \<lparr>shape = [2, 3], elems = [0, 1, 2, 0, 1, 2]\<rparr>"

definition demo_states :: "int tensor" where
  "demo_states = \<lparr>shape = [2, 1, 3, 2], elems = [1, 2, 3, 4, 5, 6, 7, 8, 9, 10, 11, 12]\<rparr>"

definition demo_step :: "int tensor" where
  "demo_step = \<lparr>shape = [1, 1, 2], elems = [5, 6]\<rparr>"

definition demo_cache :: "int tensor \<times> int tensor" where
  "demo_cache = (\<lparr>shape = [1, 1, 2, 2], elems = [1, 2, 2, 11]\<rparr>,
                 \<lparr>shape = [1, 1, 2, 2], elems = [1, 2, 3, 4]\<rparr>)"

section \<open>Properties\<close>

lemma bind_e_simps [simp]: "bind_e (Inl e) f = Inl e" "bind_e (Inr x) f = f x"
  by (simp_all add: bind_e_def)

lemma bind_e_Inr: "bind_e m f = Inr y \<longleftrightarrow> (\<exists>x. m = Inr x \<and> f x = Inr y)"
  by (cases m) simp_all

subsection \<open>Rows of a tensor\<close>

lemma length_rows [simp]: "length (rows n d xs) = n"
  by (simp add: rows_def)

lemma rows_0 [simp]: "rows 0 d xs = []"
  by (simp add: rows_def)

lemma rows_Suc: "rows (Suc n) d xs = take d xs # rows n d (drop d xs)"
proof -
  have "[0..<Suc n] = 0 # map Suc [0..<n]"
    by (simp add: upt_conv_Cons map_Suc_upt del: upt_Suc)
  then show ?thesis
    by (simp add: rows_def comp_def add.commute del: upt_Suc)
qed

lemma rows_concat:
  "length rs = n \<Longrightarrow> \<forall>r\<in>set rs. length r = d \<Longrightarrow> rows n d (concat rs) = rs"
  by (induction rs arbitrary: n) (auto simp: rows_Suc)

lemma concat_rows: "length xs = n * d \<Longrightarrow> concat (rows n d xs) = xs"
proof (induction n arbitrary: xs)
  case 0
  then show ?case by simp
next
  case (Suc n)
  then have "length (drop d xs) = n * d" by simp
  with Suc.IH have "concat (rows n d (drop d xs)) = drop d xs" by blast
  then show ?case by (simp add: rows_Suc)
qed

lemma rows_row_length: "length xs = n * d \<Longrightarrow> r \<in> set (rows n d xs) \<Longrightarrow> length r = d"
proof -
  assume len: "length xs = n * d" and "r \<in> set (rows n d xs)"
  then obtain i where i: "i < n" and r: "r = take d (drop (i * d) xs)"
    by (auto simp: rows_def)
  from i have "Suc i * d \<le> n * d" by (simp only: mult_le_mono1 Suc_leI)
  then have "d \<le> n * d - i * d" by simp
  with r len show ?thesis by simp
qed

lemma map2_append_map: "map2 (@) (map f xs) (map g xs) = map (\<lambda>x. f x @ g x) xs"
  by (induction xs) auto

lemma narrow_last_elems:
  assumes "shape x \<noteq> []" "wf_tensor x"
  shows "narrow (length (shape x) - 1) a l x =
    \<lparr>shape = butlast (shape x) @ [l],
     elems = concat (map (\<lambda>r. take l (drop a r)) (rows (prod_list (butlast (shape x))) (last (shape x)) (elems x)))\<rparr>"
proof -
  obtain s d where s: "shape x = s @ [d]" using assms(1) by (metis append_butlast_last_id)
  show ?thesis by (simp add: narrow_def s nth_append)
qed

lemma cat_no_skip: "shape a \<noteq> [0] \<Longrightarrow> shape b \<noteq> [0] \<Longrightarrow> cat a b k = cat_strict a b k"
  by (simp add: cat_def)

lemma cat_rank1:
  assumes "wf_tensor a" "wf_tensor b" "length (shape a) = 1" "length (shape b) = 1"
  shows "cat a b 0 = cat_strict a b 0"
proof -
  obtain m n where s: "shape a = [m]" "shape b = [n]"
    using assms(3,4) by (auto simp: length_Suc_conv)
  have l: "length (elems a) = m" "length (elems b) = n"
    using assms(1,2) by (simp_all add: wf_tensor_def s)
  show ?thesis
    by (cases a; cases b) (use s l in \<open>auto simp: cat_def cat_strict_def rows_Suc\<close>)
qed

lemma rotate_half_rows:
  assumes "wf_tensor x" "shape x \<noteq> []"
  shows "rotate_half x = Inr \<lparr>shape = shape x,
           elems = concat (map (rot (last (shape x) div 2))
                      (rows (prod_list (butlast (shape x))) (last (shape x)) (elems x)))\<rparr>"
proof -
  obtain s d where s: "shape x = s @ [d]" using assms(2) by (metis append_butlast_last_id)
  define R where "R = rows (prod_list s) d (elems x)"
  define h where "h = d div 2"
  have len: "length (elems x) = prod_list s * d"
    using assms(1) by (simp add: wf_tensor_def s)
  have Rlen: "\<And>r. r \<in> set R \<Longrightarrow> length r = d"
    unfolding R_def using rows_row_length [OF len] by blast
  have r: "length (shape x) - 1 = length s" by (simp add: s)
  have x1: "narrow (length s) 0 h x = \<lparr>shape = s @ [h], elems = concat (map (take h) R)\<rparr>"
    using narrow_last_elems [OF assms(2,1), of 0 h] by (simp add: s R_def)
  have eq: "map (\<lambda>r. take (d - h) (drop h r)) R = map (drop h) R"
    by (rule map_cong) (simp_all add: Rlen)
  have "narrow (length s) h (d - h) x =
      \<lparr>shape = s @ [d - h], elems = concat (map (\<lambda>r. take (d - h) (drop h r)) R)\<rparr>"
    using narrow_last_elems [OF assms(2,1), of h "d - h"] by (simp add: s R_def)
  then have x2: "narrow (length s) h (d - h) x = \<lparr>shape = s @ [d - h], elems = concat (map (drop h) R)\<rparr>"
    by (simp only: eq)
  have nx2: "neg (narrow (length s) h (d - h) x) =
      \<lparr>shape = s @ [d - h], elems = concat (map (\<lambda>r. map uminus (drop h r)) R)\<rparr>"
    unfolding x2 neg_def by (simp add: map_concat comp_def)
  have hd: "h \<le> d" by (simp add: h_def)
  have r1: "rows (prod_list s) (d - h) (concat (map (\<lambda>r. map uminus (drop h r)) R)) = map (\<lambda>r. map uminus (drop h r)) R"
    by (rule rows_concat) (auto simp: R_def Rlen [unfolded R_def])
  have r2: "rows (prod_list s) h (concat (map (take h) R)) = map (take h) R"
    using hd by (intro rows_concat) (auto simp: R_def Rlen [unfolded R_def] min_def)
  have strict: "cat_strict \<lparr>shape = s @ [d - h], elems = concat (map (\<lambda>r. map uminus (drop h r)) R)\<rparr>
          \<lparr>shape = s @ [h], elems = concat (map (take h) R)\<rparr> (length s)
        = Inr \<lparr>shape = s @ [d], elems = concat (map (rot h) R)\<rparr>"
    using hd by (simp add: cat_strict_def r1 r2 map2_append_map rot_def [abs_def])
  have rh: "rotate_half x = cat (neg (narrow (length s) h (d - h) x)) (narrow (length s) 0 h x) (length s)"
    by (simp add: rotate_half_def s h_def Let_def)
  have "rotate_half x = Inr \<lparr>shape = s @ [d], elems = concat (map (rot h) R)\<rparr>"
  proof (cases "s = []")
    case False
    then have "s @ [d - h] \<noteq> [0]" "s @ [h] \<noteq> [0]"
      by (simp_all add: append_eq_Cons_conv)
    then have "cat \<lparr>shape = s @ [d - h], elems = concat (map (\<lambda>r. map uminus (drop h r)) R)\<rparr>
          \<lparr>shape = s @ [h], elems = concat (map (take h) R)\<rparr> (length s)
        = Inr \<lparr>shape = s @ [d], elems = concat (map (rot h) R)\<rparr>"
      by (subst cat_no_skip) (simp_all only: strict tensor.select_convs not_False_eq_True)
    then show ?thesis
      unfolding rh nx2 x1 .
  next
    case True
    then have R1: "R = [elems x]"
      using len by (simp add: R_def rows_Suc)
    have "cat \<lparr>shape = s @ [d - h], elems = concat (map (\<lambda>r. map uminus (drop h r)) R)\<rparr>
          \<lparr>shape = s @ [h], elems = concat (map (take h) R)\<rparr> 0
        = Inr \<lparr>shape = s @ [d], elems = concat (map (rot h) R)\<rparr>"
      using hd len True by (subst cat_rank1) (simp_all add: cat_strict_def rows_Suc rot_def wf_tensor_def R1)
    then show ?thesis
      unfolding rh nx2 x1 using True by simp
  qed
  then show ?thesis
    by (simp add: s h_def R_def)
qed

lemma length_concat_rows:
  "\<forall>r\<in>set rs. length r = d \<Longrightarrow> length (concat rs) = length rs * d"
  by (induction rs) auto

lemma rot_length: "h \<le> length r \<Longrightarrow> length (rot h r) = length r"
  by (simp add: rot_def)

lemma rot_rot: "length r = 2 * h \<Longrightarrow> rot h (rot h r) = map uminus r"
proof -
  assume "length r = 2 * h"
  then have "rot h (rot h r) = map uminus (take h r) @ map uminus (drop h r)"
    by (simp add: rot_def)
  also have "\<dots> = map uminus r"
    by (simp flip: map_append)
  finally show ?thesis .
qed

lemma rotate_half_wf:
  assumes "wf_tensor x" "shape x \<noteq> []"
  shows "\<exists>y. rotate_half x = Inr y \<and> shape y = shape x \<and> wf_tensor y"
proof -
  let ?d = "last (shape x)" and ?n = "prod_list (butlast (shape x))"
  let ?R = "rows ?n ?d (elems x)"
  have "prod_list (shape x) = ?n * ?d"
    using assms(2) by (metis append_butlast_last_id prod_list.append prod_list.Cons prod_list.Nil mult_1_right)
  then have len: "length (elems x) = ?n * ?d"
    using assms(1) by (simp add: wf_tensor_def)
  have "\<forall>r\<in>set (map (rot (?d div 2)) ?R). length r = ?d"
    using rows_row_length [OF len] by (simp add: rot_length)
  from length_concat_rows [OF this]
  have "length (concat (map (rot (?d div 2)) ?R)) = ?n * ?d"
    by simp
  then show ?thesis
    using rotate_half_rows [OF assms] \<open>prod_list (shape x) = ?n * ?d\<close> by (simp add: wf_tensor_def)
qed

subsection \<open>Half rotation\<close>



text \<open>
  C6. For every tensor \<open>x\<close> whose last dimension is even, \<^verbatim>\<open>rotate_half\<close> splits
  the last dimension into two halves \<open>x1\<close>, \<open>x2\<close> of the same size, returns the
  concatenation of \<open>- x2\<close> and \<open>x1\<close>, and applied twice gives \<open>- x\<close>.
\<close>

theorem rotate_half_twice:
  assumes "wf_tensor x" "shape x \<noteq> []" "even (last (shape x))"
  shows "let r = length (shape x) - 1; d = last (shape x);
             x1 = narrow r 0 (d div 2) x; x2 = narrow r (d div 2) (d div 2) x
         in shape x1 = butlast (shape x) @ [d div 2] \<and>
            shape x2 = butlast (shape x) @ [d div 2] \<and>
            rotate_half x = cat (neg x2) x1 r \<and>
            (\<exists>y. rotate_half x = Inr y \<and> rotate_half y = Inr (neg x))"
proof -
  let ?d = "last (shape x)" and ?n = "prod_list (butlast (shape x))"
  let ?h = "?d div 2"
  let ?R = "rows ?n ?d (elems x)"
  let ?y = "\<lparr>shape = shape x, elems = concat (map (rot ?h) ?R)\<rparr>"
  have d: "?d = 2 * ?h" "?d - ?h = ?h" using assms(3) by auto
  have prod: "prod_list (shape x) = ?n * ?d"
    using assms(2) by (metis append_butlast_last_id prod_list.append prod_list.Cons prod_list.Nil mult_1_right)
  then have len: "length (elems x) = ?n * ?d"
    using assms(1) by (simp add: wf_tensor_def)
  have Rlen: "\<And>r. r \<in> set ?R \<Longrightarrow> length r = ?d"
    using rows_row_length [OF len] by blast
  have y: "rotate_half x = Inr ?y"
    by (rule rotate_half_rows [OF assms(1,2)])
  obtain y' where "rotate_half x = Inr y'" "shape y' = shape x" "wf_tensor y'"
    using rotate_half_wf [OF assms(1,2)] by blast
  with y have wfy: "wf_tensor ?y" by simp
  have "rows ?n ?d (concat (map (rot ?h) ?R)) = map (rot ?h) ?R"
    by (rule rows_concat) (auto simp: Rlen rot_length)
  then have "rotate_half ?y = Inr \<lparr>shape = shape x, elems = concat (map (rot ?h \<circ> rot ?h) ?R)\<rparr>"
    using rotate_half_rows [OF wfy] assms(2) by simp
  also have "map (rot ?h \<circ> rot ?h) ?R = map (map uminus) ?R"
    by (rule map_cong) (use Rlen d in \<open>simp_all add: rot_rot\<close>)
  also have "concat (map (map uminus) ?R) = map uminus (elems x)"
    by (simp add: concat_rows [OF len] flip: map_concat)
  finally have "rotate_half ?y = Inr (neg x)"
    by (simp add: neg_def)
  with y have "\<exists>y. rotate_half x = Inr y \<and> rotate_half y = Inr (neg x)"
    by simp
  then show ?thesis
    using d(2) assms(2) narrow_last_elems [OF assms(2,1)]
    by (simp add: Let_def rotate_half_def)
qed

theorem rotate_half_twice_witness:
  "wf_tensor \<lparr>shape = [2, 2], elems = [1, 2, 3, 4 :: int]\<rparr> \<and>
   (\<exists>y. rotate_half \<lparr>shape = [2, 2], elems = [1, 2, 3, 4 :: int]\<rparr> = Inr y \<and>
        rotate_half y = Inr \<lparr>shape = [2, 2], elems = [- 1, - 2, - 3, - 4]\<rparr>)"
proof -
  let ?x = "\<lparr>shape = [2, 2], elems = [1, 2, 3, 4 :: int]\<rparr>"
  have h: "wf_tensor ?x" by (simp add: wf_tensor_def)
  have n: "shape ?x \<noteq> []" and e: "even (last (shape ?x))" by simp_all
  from rotate_half_twice [OF h n e]
  have "\<exists>y. rotate_half ?x = Inr y \<and> rotate_half y = Inr (neg ?x)"
    unfolding Let_def by blast
  moreover have "neg ?x = \<lparr>shape = [2, 2], elems = [- 1, - 2, - 3, - 4]\<rparr>"
    by (simp add: neg_def)
  ultimately show ?thesis using h by auto
qed

subsection \<open>Concatenation and narrowing\<close>

lemma map2_append_take:
  "length A = length B \<Longrightarrow> \<forall>r\<in>set A. length r = n \<Longrightarrow>
     map (\<lambda>z. take n (drop 0 z)) (map2 (@) A B) = A"
  by (induction A B rule: list_induct2) auto

lemma map2_append_drop:
  "length A = length B \<Longrightarrow> \<forall>r\<in>set A. length r = n \<Longrightarrow> \<forall>r\<in>set B. length r = m \<Longrightarrow>
     map (\<lambda>z. take m (drop n z)) (map2 (@) A B) = B"
  by (induction A B rule: list_induct2) auto

lemma map2_append_length:
  "length A = length B \<Longrightarrow> \<forall>r\<in>set A. length r = n \<Longrightarrow> \<forall>r\<in>set B. length r = m \<Longrightarrow>
     \<forall>z\<in>set (map2 (@) A B). length z = n + m"
  by (induction A B rule: list_induct2) auto

lemma prod_list_split:
  "k < length s \<Longrightarrow> prod_list s = prod_list (take k s) * (s ! k * prod_list (drop (Suc k) s))"
proof -
  assume "k < length s"
  then have "s = take k s @ s ! k # drop (Suc k) s"
    by (simp add: id_take_nth_drop)
  then have "prod_list s = prod_list (take k s @ s ! k # drop (Suc k) s)"
    by simp
  then show ?thesis by simp
qed

lemma prod_list_drop:
  "k < length s \<Longrightarrow> prod_list (drop k s) = s ! k * prod_list (drop (Suc k) s)"
  by (simp flip: Cons_nth_drop_Suc)

lemma cat_strict_narrow:
  assumes wf: "wf_tensor a" "wf_tensor b"
    and len: "length (shape a) = length (shape b)" and k: "k < length (shape a)"
    and pre: "take k (shape a) = take k (shape b)"
    and post: "drop (Suc k) (shape a) = drop (Suc k) (shape b)"
  shows "\<exists>c. cat_strict a b k = Inr c \<and> wf_tensor c \<and>
           shape c = (shape a)[k := shape a ! k + shape b ! k] \<and>
           narrow k 0 (shape a ! k) c = a \<and>
           narrow k (shape a ! k) (shape b ! k) c = b"
proof -
  define outer where "outer = prod_list (take k (shape a))"
  define inner where "inner = prod_list (drop (Suc k) (shape a))"
  define na where "na = shape a ! k"
  define nb where "nb = shape b ! k"
  define RA where "RA = rows outer (na * inner) (elems a)"
  define RB where "RB = rows outer (nb * inner) (elems b)"
  define c where "c = \<lparr>shape = (shape a)[k := na + nb], elems = concat (map2 (@) RA RB)\<rparr>"
  have kb: "k < length (shape b)" using k len by simp
  have la: "length (elems a) = outer * (na * inner)"
    using wf(1) prod_list_split [OF k] by (simp add: wf_tensor_def outer_def inner_def na_def)
  have lb: "length (elems b) = outer * (nb * inner)"
    using wf(2) prod_list_split [OF kb] by (simp add: wf_tensor_def outer_def inner_def nb_def pre post)
  have RAl: "\<forall>r\<in>set RA. length r = na * inner"
    unfolding RA_def using rows_row_length [OF la] by blast
  have RBl: "\<forall>r\<in>set RB. length r = nb * inner"
    unfolding RB_def using rows_row_length [OF lb] by blast
  have RR: "length RA = length RB" by (simp add: RA_def RB_def)
  have cat: "cat_strict a b k = Inr c"
    using len k pre post prod_list_drop [OF k] prod_list_drop [OF kb]
    by (simp add: cat_strict_def Let_def c_def RA_def RB_def outer_def inner_def na_def nb_def)
  have Zl: "\<forall>z\<in>set (map2 (@) RA RB). length z = (na + nb) * inner"
    using map2_append_length [OF RR RAl RBl] by (simp add: add_mult_distrib)
  have rz: "rows outer ((na + nb) * inner) (concat (map2 (@) RA RB)) = map2 (@) RA RB"
    by (rule rows_concat) (use Zl in \<open>simp_all add: RA_def RB_def\<close>)
  have sc: "take k (shape c) = take k (shape a)" "shape c ! k = na + nb"
      "drop (Suc k) (shape c) = drop (Suc k) (shape a)"
    using k by (simp_all add: c_def)
  have "length (concat (map2 (@) RA RB)) = outer * ((na + nb) * inner)"
    using length_concat_rows [OF Zl] by (simp add: RA_def RB_def)
  moreover have "prod_list (shape c) = outer * ((na + nb) * inner)"
    using prod_list_split [of k "shape c"] k sc by (simp add: outer_def inner_def c_def)
  ultimately have wfc: "wf_tensor c"
    by (simp add: wf_tensor_def c_def)
  have n1: "narrow k 0 na c = a"
  proof -
    have "narrow k 0 na c = \<lparr>shape = shape a, elems = concat (map (\<lambda>z. take (na * inner) (drop 0 z)) (map2 (@) RA RB))\<rparr>"
      using rz by (simp add: narrow_def sc Let_def outer_def [symmetric] inner_def [symmetric])
         (simp add: c_def na_def)
    also have "\<dots> = \<lparr>shape = shape a, elems = concat RA\<rparr>"
      by (simp only: map2_append_take [OF RR RAl])
    also have "\<dots> = a"
      by (simp add: RA_def concat_rows [OF la])
    finally show ?thesis .
  qed
  have n2: "narrow k na nb c = b"
  proof -
    have "(shape a)[k := nb] = shape b"
      using k kb pre post
      by (simp add: nb_def upd_conv_take_nth_drop flip: id_take_nth_drop)
    then have "narrow k na nb c = \<lparr>shape = shape b, elems = concat (map (\<lambda>z. take (nb * inner) (drop (na * inner) z)) (map2 (@) RA RB))\<rparr>"
      using rz by (simp add: narrow_def sc Let_def outer_def [symmetric] inner_def [symmetric])
         (simp add: c_def)
    also have "\<dots> = \<lparr>shape = shape b, elems = concat RB\<rparr>"
      by (simp only: map2_append_drop [OF RR RAl RBl])
    also have "\<dots> = b"
      by (simp add: RB_def concat_rows [OF lb])
    finally show ?thesis .
  qed
  show ?thesis
    using cat wfc n1 n2 by (simp add: c_def na_def nb_def)
qed

lemma cat_dim2:
  assumes "wf_tensor a" "wf_tensor c" "shape a = [b, h, n, d]" "shape c = [b, h, s, d]"
  shows "\<exists>m. cat a c 2 = Inr m \<and> wf_tensor m \<and> shape m = [b, h, n + s, d] \<and>
           narrow 2 0 n m = a \<and> narrow 2 n s m = c"
proof -
  have "cat a c 2 = cat_strict a c 2"
    by (rule cat_no_skip) (simp_all add: assms)
  moreover have "\<exists>m. cat_strict a c 2 = Inr m \<and> wf_tensor m \<and>
           shape m = (shape a)[2 := shape a ! 2 + shape c ! 2] \<and>
           narrow 2 0 (shape a ! 2) m = a \<and> narrow 2 (shape a ! 2) (shape c ! 2) m = c"
    by (rule cat_strict_narrow) (simp_all add: assms)
  ultimately show ?thesis
    by (simp add: assms)
qed

text \<open>
  C4. Cache merge: without a previous cache the new key and value are returned unchanged;
  with a previous cache of sequence length \<open>n\<close> the merged key (and value) is the
  concatenation along the sequence axis, cache first: its length is \<open>n\<close> plus the new
  length, its first \<open>n\<close> positions are the cache and the rest the new states. The merge
  is a function of its arguments and returns new tensors.
\<close>

theorem kv_merge_concatenates:
  assumes "wf_tensor past_key" "wf_tensor key_states" "wf_tensor past_value" "wf_tensor value_states"
    and "shape past_key = [b, h, n, d]" "shape key_states = [b, h, s, d]"
    and "shape past_value = [b, h, n, d]" "shape value_states = [b, h, s, d]"
  shows "kv_merge None key_states value_states = Inr (key_states, value_states) \<and>
         (\<exists>mk mv. kv_merge (Some (past_key, past_value)) key_states value_states = Inr (mk, mv) \<and>
            shape mk = [b, h, n + s, d] \<and> shape mv = [b, h, n + s, d] \<and>
            narrow 2 0 n mk = past_key \<and> narrow 2 n s mk = key_states \<and>
            narrow 2 0 n mv = past_value \<and> narrow 2 n s mv = value_states)"
proof -
  obtain mk where mk: "cat past_key key_states 2 = Inr mk" "shape mk = [b, h, n + s, d]"
      "narrow 2 0 n mk = past_key" "narrow 2 n s mk = key_states"
    using cat_dim2 [OF assms(1,2,5,6)] by blast
  obtain mv where mv: "cat past_value value_states 2 = Inr mv" "shape mv = [b, h, n + s, d]"
      "narrow 2 0 n mv = past_value" "narrow 2 n s mv = value_states"
    using cat_dim2 [OF assms(3,4,7,8)] by blast
  show ?thesis
    using mk mv by (simp add: kv_merge_def)
qed

theorem kv_merge_concatenates_witness:
  "kv_merge (Some (\<lparr>shape = [1, 1, 2, 2], elems = [1, 2, 3, 4 :: int]\<rparr>,
                   \<lparr>shape = [1, 1, 2, 2], elems = [5, 6, 7, 8]\<rparr>))
     \<lparr>shape = [1, 1, 1, 2], elems = [9, 10]\<rparr> \<lparr>shape = [1, 1, 1, 2], elems = [11, 12]\<rparr> =
   Inr (\<lparr>shape = [1, 1, 3, 2], elems = [1, 2, 3, 4, 9, 10]\<rparr>,
        \<lparr>shape = [1, 1, 3, 2], elems = [5, 6, 7, 8, 11, 12]\<rparr>) \<and>
   narrow 2 0 2 \<lparr>shape = [1, 1, 3, 2], elems = [1, 2, 3, 4, 9, 10 :: int]\<rparr> =
     \<lparr>shape = [1, 1, 2, 2], elems = [1, 2, 3, 4]\<rparr>"
proof -
  let ?pk = "\<lparr>shape = [1, 1, 2, 2], elems = [1, 2, 3, 4 :: int]\<rparr>"
  let ?pv = "\<lparr>shape = [1, 1, 2, 2], elems = [5, 6, 7, 8 :: int]\<rparr>"
  let ?k = "\<lparr>shape = [1, 1, 1, 2], elems = [9, 10 :: int]\<rparr>"
  let ?v = "\<lparr>shape = [1, 1, 1, 2], elems = [11, 12 :: int]\<rparr>"
  have wf: "wf_tensor ?pk" "wf_tensor ?k" "wf_tensor ?pv" "wf_tensor ?v"
    by (simp_all add: wf_tensor_def)
  have sh: "shape ?pk = [1, 1, 2, 2]" "shape ?k = [1, 1, 1, 2]"
      "shape ?pv = [1, 1, 2, 2]" "shape ?v = [1, 1, 1, 2]"
    by simp_all
  from kv_merge_concatenates [OF wf sh]
  obtain mk mv where m: "kv_merge (Some (?pk, ?pv)) ?k ?v = Inr (mk, mv)" "narrow 2 0 2 mk = ?pk"
    by blast
  have e: "kv_merge (Some (?pk, ?pv)) ?k ?v =
      Inr (\<lparr>shape = [1, 1, 3, 2], elems = [1, 2, 3, 4, 9, 10]\<rparr>,
           \<lparr>shape = [1, 1, 3, 2], elems = [5, 6, 7, 8, 11, 12]\<rparr>)"
    by code_simp
  with m show ?thesis by simp
qed

subsection \<open>The forward call\<close>

lemma dispatch_mask: 
  "attention_dispatch lib hub rank bsz q_len q k v mask1 = attention_dispatch lib hub rank bsz q_len q k v mask2"
  by (simp add: attention_dispatch_def)

lemma dispatch_without_flash:
  "\<not> SUPPORT_FLASH2 lib \<Longrightarrow>
     attention_dispatch lib hub rank bsz q_len q k v amask = (hub, Inl AssertionError)"
  by (simp add: attention_dispatch_def)

lemma forward_without_flash:
  "\<not> SUPPORT_FLASH2 lib \<Longrightarrow>
     \<exists>e. internlm_attn_forward lib self hub rank hidden_states attention_mask position_ids
            past_key_value output_attentions use_cache = (hub, Inl e)"
  by (auto simp: internlm_attn_forward_def dispatch_without_flash Let_def
           split: list.splits sum.splits prod.splits)

lemma dispatch_padded:
  "SUPPORT_FLASH2 lib \<Longrightarrow> cumulative_len_rank hub rank = None \<Longrightarrow>
   transpose_dims 1 2 q = Inr q' \<Longrightarrow> transpose_dims 1 2 k = Inr k' \<Longrightarrow>
   transpose_dims 1 2 v = Inr v' \<Longrightarrow>
     attention_dispatch lib hub rank bsz q_len q k v amask = (hub, flash_attn_func lib q' k' v' True)"
  by (simp add: attention_dispatch_def)

lemma dispatch_packed:
  "SUPPORT_FLASH2 lib \<Longrightarrow> cumulative_len_rank hub rank = Some cl \<Longrightarrow> cl \<noteq> [] \<Longrightarrow>
   transpose_dims 1 2 q = Inr q' \<Longrightarrow> transpose_dims 1 2 k = Inr k' \<Longrightarrow>
   transpose_dims 1 2 v = Inr v' \<Longrightarrow>
   flatten01 q' = Inr qu \<Longrightarrow> flatten01 k' = Inr ku \<Longrightarrow> flatten01 v' = Inr vu \<Longrightarrow>
     snd (attention_dispatch lib hub rank bsz q_len q k v amask) =
       flash_attn_varlen_func lib qu ku vu (concat (rebase bsz q_len cl))
         (concat (rebase bsz q_len cl)) (max_seqlen_rank hub rank) (max_seqlen_rank hub rank) True"
proof -
  have "length (rebase bsz q_len cl) = length cl"
    unfolding rebase_def by (rule fold_invariant [where Q="\<lambda>_. True"]) simp_all
  then have "cl \<noteq> [] \<Longrightarrow> rebase bsz q_len cl \<noteq> []" by auto
  then show "SUPPORT_FLASH2 lib \<Longrightarrow> cumulative_len_rank hub rank = Some cl \<Longrightarrow> cl \<noteq> [] \<Longrightarrow>
   transpose_dims 1 2 q = Inr q' \<Longrightarrow> transpose_dims 1 2 k = Inr k' \<Longrightarrow>
   transpose_dims 1 2 v = Inr v' \<Longrightarrow>
   flatten01 q' = Inr qu \<Longrightarrow> flatten01 k' = Inr ku \<Longrightarrow> flatten01 v' = Inr vu \<Longrightarrow> ?thesis"
    by (simp add: attention_dispatch_def Let_def cat_boundaries_def)
qed

text \<open>
  C1, as stated, fails: a padded call with the lower-triangular-bias kernel available and
  the flash library absent raises the assertion error of line 94, while the same call with
  the library present returns.
\<close>

theorem padded_call_fails_without_flash:
  "cumulative_len_rank padded_hub 0 = None \<and>
   SUPPORT_XFORMERS (demo_lib True False) \<and> \<not> SUPPORT_FLASH2 (demo_lib True False) \<and>
   snd (internlm_attn_forward (demo_lib True False) demo_self padded_hub 0 demo_hidden None
          (Some demo_position_ids) None False False) = Inl AssertionError \<and>
   snd (internlm_attn_forward (demo_lib True True) demo_self padded_hub 0 demo_hidden None
          (Some demo_position_ids) None False False) =
     Inr (\<lparr>shape = [2, 3, 2], elems = [1, 2, 2, 11, 3, 28, 7, 8, 8, 29, 9, 58]\<rparr>, None, None)"
  by code_simp

text \<open>
  C1, amended. In either layout the flash library is mandatory: without it the choice of
  the kernel raises the assertion error before any kernel or transposition runs, and every
  forward call fails, leaving the hub as it was. With it, a padded call runs the dense
  causal kernel on the transposed states and a packed call runs the packed variable-length
  kernel on the flattened states with the re-based boundaries; the other two kernels are
  never run.
\<close>

theorem flash_library_mandatory:
  "(\<not> SUPPORT_FLASH2 lib \<longrightarrow>
      attention_dispatch lib hub rank bsz q_len q k v attention_mask = (hub, Inl AssertionError) \<and>
      (\<exists>e. internlm_attn_forward lib self hub rank hidden_states attention_mask position_ids
             past_key_value output_attentions use_cache = (hub, Inl e))) \<and>
   (SUPPORT_FLASH2 lib \<longrightarrow>
      transpose_dims 1 2 q = Inr q' \<longrightarrow> transpose_dims 1 2 k = Inr k' \<longrightarrow>
      transpose_dims 1 2 v = Inr v' \<longrightarrow>
        (cumulative_len_rank hub rank = None \<longrightarrow>
           attention_dispatch lib hub rank bsz q_len q k v attention_mask =
             (hub, flash_attn_func lib q' k' v' True)) \<and>
        (\<forall>cl. cumulative_len_rank hub rank = Some cl \<longrightarrow> cl \<noteq> [] \<longrightarrow>
           flatten01 q' = Inr qu \<longrightarrow> flatten01 k' = Inr ku \<longrightarrow> flatten01 v' = Inr vu \<longrightarrow>
           snd (attention_dispatch lib hub rank bsz q_len q k v attention_mask) =
             flash_attn_varlen_func lib qu ku vu (concat (rebase bsz q_len cl))
               (concat (rebase bsz q_len cl)) (max_seqlen_rank hub rank)
               (max_seqlen_rank hub rank) True))"
  using dispatch_without_flash [of lib hub rank bsz q_len q k v attention_mask]
    forward_without_flash [of lib self hub rank hidden_states attention_mask position_ids
      past_key_value output_attentions use_cache]
    dispatch_padded [of lib hub rank q q' k k' v v' bsz q_len attention_mask]
    dispatch_packed [of lib hub rank _ q q' k k' v v' qu ku vu bsz q_len attention_mask]
  by blast

theorem flash_library_mandatory_witness:
  "\<not> SUPPORT_FLASH2 (demo_lib True False) \<and>
   (\<exists>e. internlm_attn_forward (demo_lib True False) demo_self padded_hub 0 demo_hidden None
          (Some demo_position_ids) None False False = (padded_hub, Inl e)) \<and>
   SUPPORT_FLASH2 (demo_lib True True) \<and>
   attention_dispatch (demo_lib True True) padded_hub 0 2 3 demo_states demo_states demo_states None =
     (padded_hub, Inr \<lparr>shape = [2, 3, 1, 2], elems = [1, 2, 3, 4, 5, 6, 7, 8, 9, 10, 11, 12]\<rparr>) \<and>
   snd (attention_dispatch (demo_lib True True) (packed_hub [[0, 3], [0, 3]]) 0 2 3
          demo_states demo_states demo_states None) =
     Inr \<lparr>shape = [6, 1, 2], elems = [1, 2, 3, 4, 5, 6, 7, 8, 9, 10, 11, 12]\<rparr>"
proof -
  let ?t = "\<lparr>shape = [2, 3, 1, 2], elems = [1, 2, 3, 4, 5, 6, 7, 8, 9, 10, 11, 12 :: int]\<rparr>"
  let ?u = "\<lparr>shape = [6, 1, 2], elems = [1, 2, 3, 4, 5, 6, 7, 8, 9, 10, 11, 12 :: int]\<rparr>"
  have nf: "\<not> SUPPORT_FLASH2 (demo_lib True False)" and f: "SUPPORT_FLASH2 (demo_lib True True)"
    by (simp_all add: demo_lib_def)
  have t: "transpose_dims 1 2 demo_states = Inr ?t" by code_simp
  have u: "flatten01 ?t = Inr ?u" by code_simp
  have pad: "cumulative_len_rank padded_hub 0 = None" by (simp add: padded_hub_def)
  have pack: "cumulative_len_rank (packed_hub [[0, 3], [0, 3]]) 0 = Some [[0, 3], [0, 3]]"
    by (simp add: packed_hub_def)
  have k1: "flash_attn_func (demo_lib True True) ?t ?t ?t True = Inr ?t"
    by (simp add: demo_lib_def)
  have k2: "flash_attn_varlen_func (demo_lib True True) ?u ?u ?u cu cu' m m' True = Inr ?u" for cu cu' m m'
    by (simp add: demo_lib_def)
  from flash_library_mandatory [of "demo_lib True False" padded_hub 0 2 3 demo_states demo_states
      demo_states None demo_self demo_hidden "Some demo_position_ids" None False False] nf
  have a: "\<exists>e. internlm_attn_forward (demo_lib True False) demo_self padded_hub 0 demo_hidden None
          (Some demo_position_ids) None False False = (padded_hub, Inl e)"
    by blast
  from flash_library_mandatory [of "demo_lib True True" padded_hub 0 2 3 demo_states demo_states
      demo_states None demo_self demo_hidden "Some demo_position_ids" None False False ?t ?t ?t] f t pad
  have b: "attention_dispatch (demo_lib True True) padded_hub 0 2 3 demo_states demo_states demo_states None =
     (padded_hub, flash_attn_func (demo_lib True True) ?t ?t ?t True)"
    by blast
  from flash_library_mandatory [of "demo_lib True True" "packed_hub [[0, 3], [0, 3]]" 0 2 3
      demo_states demo_states
      demo_states None demo_self demo_hidden "Some demo_position_ids" None False False ?t ?t ?t ?u ?u ?u]
    f t u pack
  have c: "snd (attention_dispatch (demo_lib True True) (packed_hub [[0, 3], [0, 3]]) 0 2 3
          demo_states demo_states demo_states None) =
     flash_attn_varlen_func (demo_lib True True) ?u ?u ?u (concat (rebase 2 3 [[0, 3], [0, 3]]))
               (concat (rebase 2 3 [[0, 3], [0, 3]])) (max_seqlen_rank (packed_hub [[0, 3], [0, 3]]) 0)
               (max_seqlen_rank (packed_hub [[0, 3], [0, 3]]) 0) True"
    by blast
  show ?thesis
    using nf f a b c by (simp only: k1 k2) simp
qed

text \<open>What the layout assertion does catch: a wrong number of samples and a wrong final
  boundary of the first sample abort the call.\<close>

lemma check_layout_count:
  "length cl \<noteq> bsz \<Longrightarrow> check_layout (Some cl) bsz q_len = Inl AssertionError"
  by (simp add: check_layout_def)

lemma check_layout_first_sample:
  "c0 \<noteq> [] \<Longrightarrow> last c0 \<noteq> int q_len \<Longrightarrow>
     check_layout (Some (c0 # cl)) bsz q_len = Inl AssertionError"
  by (simp add: check_layout_def)

lemma forward_layout_error:
  "shape hidden_states = [bsz, q_len, hsz] \<Longrightarrow>
   check_layout (cumulative_len_rank hub rank) bsz q_len = Inl e \<Longrightarrow>
     internlm_attn_forward lib self hub rank hidden_states attention_mask position_ids
       past_key_value output_attentions use_cache = (hub, Inl e)"
  by (simp add: internlm_attn_forward_def)

text \<open>
  C2 at a failing input: batch size 2, rows of length 3, the second sample's final
  boundary 2. The layout assertion reads the first sample only, passes, and the call
  returns.
\<close>

theorem layout_check_reads_first_sample_only:
  "check_layout (Some [[0, 3], [0, 2]]) 2 3 = Inr () \<and>
   snd (internlm_attn_forward (demo_lib True True) demo_self (packed_hub [[0, 3], [0, 2]]) 0
          demo_hidden None None None False False) =
     Inr (\<lparr>shape = [2, 3, 2], elems = [1, 2, 2, 11, 3, 28, 7, 8, 8, 29, 9, 58]\<rparr>, None, None)"
  by code_simp

text \<open>What the call leaves alone in the hub: the other two entries, the other ranks, and
  everything in padded layout.\<close>

lemma dispatch_hub_frame:
  assumes "attention_dispatch lib hub rank bsz q_len q k v amask = (hub', r)"
  shows "indexes_rank hub' = indexes_rank hub \<and> max_seqlen_rank hub' = max_seqlen_rank hub \<and>
         (\<forall>n. n \<noteq> rank \<longrightarrow> cumulative_len_rank hub' n = cumulative_len_rank hub n) \<and>
         (cumulative_len_rank hub rank = None \<longrightarrow> hub' = hub)"
  using assms
  by (auto simp: attention_dispatch_def Let_def split: if_splits sum.splits prod.splits option.splits)

lemma forward_hub_frame:
  assumes "internlm_attn_forward lib self hub rank hidden_states attention_mask position_ids
             past_key_value output_attentions use_cache = (hub', r)"
  shows "indexes_rank hub' = indexes_rank hub \<and> max_seqlen_rank hub' = max_seqlen_rank hub \<and>
         (\<forall>n. n \<noteq> rank \<longrightarrow> cumulative_len_rank hub' n = cumulative_len_rank hub n) \<and>
         (cumulative_len_rank hub rank = None \<longrightarrow> hub' = hub)"
  using assms
  by (auto simp: internlm_attn_forward_def Let_def
           split: list.splits sum.splits prod.splits dest!: dispatch_hub_frame)

text \<open>
  C3 at a failing input: a packed batch of two samples of length 3. After the call the
  hub holds the re-based boundaries \<open>[3, 6]\<close> for the second sample, and after a second
  call on that hub \<open>[6, 9]\<close>.
\<close>

theorem rebasing_changes_the_hub:
  "cumulative_len_rank (packed_hub [[0, 3], [0, 3]]) 0 = Some [[0, 3], [0, 3]] \<and>
   cumulative_len_rank
     (fst (internlm_attn_forward (demo_lib True True) demo_self (packed_hub [[0, 3], [0, 3]]) 0
             demo_hidden None None None False False)) 0 = Some [[0, 3], [3, 6]] \<and>
   cumulative_len_rank
     (fst (internlm_attn_forward (demo_lib True True) demo_self
        (fst (internlm_attn_forward (demo_lib True True) demo_self (packed_hub [[0, 3], [0, 3]]) 0
             demo_hidden None None None False False)) 0
             demo_hidden None None None False False)) 0 = Some [[0, 3], [6, 9]]"
  by code_simp

text \<open>
  C7. Whenever the forward call returns, the returned cache is the merged key and value
  (the rotated key and the value, each after the merge with the cache supplied) if and only
  if \<^verbatim>\<open>use_cache\<close> holds, and is \<^verbatim>\<open>None\<close> otherwise, also when a cache was supplied.
\<close>

theorem new_cache_iff_use_cache:
  assumes "internlm_attn_forward lib self hub rank hidden_states attention_mask position_ids
             past_key_value output_attentions use_cache = (hub', Inr (out, weights, cache))"
  shows "\<exists>bsz q_len hsz q k v mk mv.
           shape hidden_states = [bsz, q_len, hsz] \<and>
           rotated_states self hidden_states bsz q_len
             (if cumulative_len_rank hub rank \<noteq> None then indexes_rank hub rank else position_ids)
             past_key_value = Inr (q, k, v) \<and>
           kv_merge past_key_value k v = Inr (mk, mv) \<and>
           (cache = Some (mk, mv) \<longleftrightarrow> use_cache) \<and>
           (\<not> use_cache \<longrightarrow> cache = None)"
  using assms
  by (auto simp: internlm_attn_forward_def Let_def bind_e_Inr split: list.splits sum.splits prod.splits if_splits)

theorem new_cache_iff_use_cache_witness:
  "\<exists>hub' out weights k v.
     internlm_attn_forward (demo_lib True True) demo_self padded_hub 0 demo_step None
       (Some \<lparr>shape = [1, 1], elems = [2]\<rparr>) (Some demo_cache) False True =
       (hub', Inr (out, weights,
          Some (\<lparr>shape = [1, 1, 3, 2], elems = [1, 2, 2, 11, - 3, - 28]\<rparr>,
                \<lparr>shape = [1, 1, 3, 2], elems = [1, 2, 3, 4, 5, 6]\<rparr>))) \<and>
     kv_merge (Some demo_cache) k v =
       Inr (\<lparr>shape = [1, 1, 3, 2], elems = [1, 2, 2, 11, - 3, - 28]\<rparr>,
            \<lparr>shape = [1, 1, 3, 2], elems = [1, 2, 3, 4, 5, 6]\<rparr>)"
proof -
  let ?r = "internlm_attn_forward (demo_lib True True) demo_self padded_hub 0 demo_step None
       (Some \<lparr>shape = [1, 1], elems = [2]\<rparr>) (Some demo_cache) False True"
  let ?c = "(\<lparr>shape = [1, 1, 3, 2], elems = [1, 2, 2, 11, - 3, - 28 :: int]\<rparr>,
             \<lparr>shape = [1, 1, 3, 2], elems = [1, 2, 3, 4, 5, 6 :: int]\<rparr>)"
  have "snd ?r = Inr (\<lparr>shape = [1, 1, 2], elems = [3, 28]\<rparr>, None, Some ?c)"
    by code_simp
  then have r: "?r = (fst ?r, Inr (\<lparr>shape = [1, 1, 2], elems = [3, 28]\<rparr>, None, Some ?c))"
    by (metis prod.collapse)
  from new_cache_iff_use_cache [OF r]
  obtain k v mk mv where "kv_merge (Some demo_cache) k v = Inr (mk, mv)" "Some ?c = Some (mk, mv)"
    by blast
  then have "kv_merge (Some demo_cache) k v = Inr ?c" by simp
  with r show ?thesis by blast
qed

text \<open>
  C8. Whenever the forward call returns, whatever \<^verbatim>\<open>output_attentions\<close> is and whichever
  kernel ran, the attention weights of the returned triple are \<^verbatim>\<open>None\<close>.
\<close>

theorem attention_weights_none:
  assumes "internlm_attn_forward lib self hub rank hidden_states attention_mask position_ids
             past_key_value output_attentions use_cache = (hub', Inr (out, weights, cache))"
  shows "weights = None"
  using assms
  by (auto simp: internlm_attn_forward_def Let_def bind_e_Inr split: list.splits sum.splits prod.splits)

theorem attention_weights_none_witness:
  "\<exists>hub' out weights cache.
     internlm_attn_forward (demo_lib True True) demo_self padded_hub 0 demo_hidden None
       (Some demo_position_ids) None True False = (hub', Inr (out, weights, cache)) \<and>
     weights = None"
proof -
  let ?r = "internlm_attn_forward (demo_lib True True) demo_self padded_hub 0 demo_hidden None
       (Some demo_position_ids) None True False"
  have "snd ?r =
     Inr (\<lparr>shape = [2, 3, 2], elems = [1, 2, 2, 11, 3, 28, 7, 8, 8, 29, 9, 58]\<rparr>, None, None)"
    by code_simp
  then have r: "?r = (fst ?r,
     Inr (\<lparr>shape = [2, 3, 2], elems = [1, 2, 2, 11, 3, 28, 7, 8, 8, 29, 9, 58]\<rparr>, None, None))"
    by (metis prod.collapse)
  from attention_weights_none [OF r] r show ?thesis by blast
qed

text \<open>
  C9. Two forward calls that differ in the attention mask only have the same outcome: the
  same hub and the same returned triple or raised error. The mask reaches the reference
  kernel only, which lies behind the assertion of line 94.
\<close>

theorem attention_mask_ignored:
  "internlm_attn_forward lib self hub rank hidden_states mask1 position_ids past_key_value
     output_attentions use_cache =
   internlm_attn_forward lib self hub rank hidden_states mask2 position_ids past_key_value
     output_attentions use_cache"
  unfolding internlm_attn_forward_def dispatch_mask [of lib hub rank _ _ _ _ _ mask1 mask2] ..

theorem attention_mask_ignored_witness:
  "snd (internlm_attn_forward (demo_lib True True) demo_self padded_hub 0 demo_hidden
          (Some \<lparr>shape = [1], elems = [- 5]\<rparr>) (Some demo_position_ids) None False False) =
     Inr (\<lparr>shape = [2, 3, 2], elems = [1, 2, 2, 11, 3, 28, 7, 8, 8, 29, 9, 58]\<rparr>, None, None) \<and>
   snd (internlm_attn_forward (demo_lib True True) demo_self padded_hub 0 demo_hidden
          None (Some demo_position_ids) None False False) =
     Inr (\<lparr>shape = [2, 3, 2], elems = [1, 2, 2, 11, 3, 28, 7, 8, 8, 29, 9, 58]\<rparr>, None, None)"
proof -
  have "snd (internlm_attn_forward (demo_lib True True) demo_self padded_hub 0 demo_hidden
          None (Some demo_position_ids) None False False) =
     Inr (\<lparr>shape = [2, 3, 2], elems = [1, 2, 2, 11, 3, 28, 7, 8, 8, 29, 9, 58]\<rparr>, None, None)"
    by code_simp
  then show ?thesis
    using attention_mask_ignored [of "demo_lib True True" demo_self padded_hub 0 demo_hidden
       "Some \<lparr>shape = [1], elems = [- 5]\<rparr>" "Some demo_position_ids" None False False None]
    by simp
qed

subsection \<open>Broadcasting\<close>

lemma concat_blocks_upt:
  "concat (map (\<lambda>i. map (\<lambda>j. i * p + j) [0..<p]) [0..<n]) = [0..<n * p]"
proof (induction n)
  case 0
  then show ?case by simp
next
  case (Suc n)
  have "map (\<lambda>j. n * p + j) [0..<p] = [n * p..<n * p + p]"
    by (simp add: map_add_upt add.commute)
  moreover have "[0..<n * p + p] = [0..<n * p] @ [n * p..<n * p + p]"
    by (metis le_add1 upt_add_eq_append zero_le)
  ultimately show ?case using Suc by (simp add: add.commute)
qed

lemma offset_indices: "map (offset s) (indices s) = [0..<prod_list s]"
proof (induction s)
  case Nil
  then show ?case by simp
next
  case (Cons n s)
  have "map (offset (n # s)) (indices (n # s)) =
        concat (map (\<lambda>i. map (\<lambda>idx. i * prod_list s + offset s idx) (indices s)) [0..<n])"
    by (simp add: map_concat comp_def)
  also have "\<dots> = concat (map (\<lambda>i. map (\<lambda>j. i * prod_list s + j) (map (offset s) (indices s))) [0..<n])"
    by (simp add: comp_def)
  also have "\<dots> = [0..<n * prod_list s]"
    by (simp only: Cons.IH concat_blocks_upt)
  finally show ?case by simp
qed

lemma length_indices: "length (indices s) = prod_list s"
  using arg_cong [OF offset_indices, of length s] by simp

lemma nth_offset_indices:
  assumes "length xs = prod_list s"
  shows "map (\<lambda>idx. xs ! offset s idx) (indices s) = xs"
proof -
  have "map (\<lambda>idx. xs ! offset s idx) (indices s) = map ((!) xs) (map (offset s) (indices s))"
    by (simp add: comp_def)
  also have "\<dots> = xs"
    using map_nth [of xs] assms by (simp add: offset_indices)
  finally show ?thesis .
qed

lemma indices_bound:
  "idx \<in> set (indices s) \<Longrightarrow> list_all2 (<) idx s"
  by (induction s arbitrary: idx) auto

lemma bc_offset_bound:
  "list_all2 (\<lambda>a b. a = b \<or> a = 1) s r \<Longrightarrow> list_all2 (<) idx r \<Longrightarrow>
     offset s (map2 (\<lambda>n i. if n = 1 then 0 else i) s idx) < prod_list s"
proof (induction s r arbitrary: idx rule: list_all2_induct)
  case Nil
  then show ?case by simp
next
  case (Cons a s b r)
  from Cons.prems obtain i idx' where idx: "idx = i # idx'" "i < b" "list_all2 (<) idx' r"
    by (auto simp: list_all2_Cons2)
  let ?o = "offset s (map2 (\<lambda>n i. if n = 1 then 0 else i) s idx')"
  have o: "?o < prod_list s" using Cons.IH [OF idx(3)] .
  show ?case
  proof (cases "a = 1")
    case True
    then show ?thesis using o by (simp add: idx)
  next
    case False
    with Cons.hyps(1) idx(2) have "Suc i \<le> a" by simp
    then have "Suc i * prod_list s \<le> a * prod_list s" by (rule mult_le_mono1)
    then show ?thesis using o False by (simp add: idx)
  qed
qed

lemma bc_index_same: "list_all2 (<) idx s \<Longrightarrow> bc_index s idx = idx"
proof -
  assume a: "list_all2 (<) idx s"
  then have "map2 (\<lambda>n i. if n = 1 then 0 else i) s idx = idx"
    by (induction idx s rule: list_all2_induct) auto
  moreover have "length idx = length s" using a by (rule list_all2_lengthD)
  ultimately show ?thesis by (simp add: bc_index_def)
qed

lemma broadcast_rev_fits:
  "list_all2 (\<lambda>a b. a = b \<or> a = 1) s r \<Longrightarrow> broadcast_rev r s = Some r"
  by (induction s r rule: list_all2_induct) auto

lemma broadcast_shapes_fits: "fits s r \<Longrightarrow> broadcast_shapes r s = Some r"
  unfolding fits_def broadcast_shapes_def
  by (simp add: broadcast_rev_fits list_all2_rev)

lemma fits_refl: "fits s s"
  by (simp add: fits_def list_all2_same)

lemma broadcast_op_fits:
  assumes "fits (shape b) (shape a)"
  shows "broadcast_op f a b = Inr \<lparr>shape = shape a,
           elems = map (\<lambda>idx. f (elems a ! offset (shape a) idx)
                                (elems b ! offset (shape b) (bc_index (shape b) idx)))
                       (indices (shape a))\<rparr>"
proof -
  have "map (\<lambda>idx. f (elems a ! offset (shape a) (bc_index (shape a) idx))
                     (elems b ! offset (shape b) (bc_index (shape b) idx))) (indices (shape a)) =
        map (\<lambda>idx. f (elems a ! offset (shape a) idx)
                     (elems b ! offset (shape b) (bc_index (shape b) idx))) (indices (shape a))"
    by (rule map_cong) (simp_all add: bc_index_same indices_bound)
  then show ?thesis
    by (simp add: broadcast_op_def broadcast_shapes_fits [OF assms])
qed

lemma broadcast_op_shape:
  assumes "fits (shape b) (shape a)"
  shows "\<exists>c. broadcast_op f a b = Inr c \<and> shape c = shape a \<and> wf_tensor c"
  by (simp add: broadcast_op_fits [OF assms] wf_tensor_def length_indices)

lemma bc_nth_in_set:
  assumes "fits (shape b) (shape a)" "wf_tensor b" "idx \<in> set (indices (shape a))"
  shows "elems b ! offset (shape b) (bc_index (shape b) idx) \<in> set (elems b)"
proof -
  have i: "list_all2 (<) idx (shape a)" using assms(3) by (rule indices_bound)
  have l: "length idx = length (shape b)"
    using list_all2_lengthD [OF i] list_all2_lengthD [OF assms(1) [unfolded fits_def]] by simp
  have "offset (shape b) (bc_index (shape b) idx) < prod_list (shape b)"
    using bc_offset_bound [OF assms(1) [unfolded fits_def] i] by (simp add: bc_index_def l)
  then show ?thesis using assms(2) by (simp add: wf_tensor_def)
qed

lemma broadcast_op_const:
  assumes "wf_tensor a" "wf_tensor b" "fits (shape b) (shape a)" "\<forall>x\<in>set (elems b). x = c"
  shows "broadcast_op f a b = Inr \<lparr>shape = shape a, elems = map (\<lambda>x. f x c) (elems a)\<rparr>"
proof -
  have "map (\<lambda>idx. f (elems a ! offset (shape a) idx)
                     (elems b ! offset (shape b) (bc_index (shape b) idx))) (indices (shape a)) =
        map (\<lambda>idx. f (elems a ! offset (shape a) idx) c) (indices (shape a))"
  proof (rule map_cong)
    fix idx assume "idx \<in> set (indices (shape a))"
    then have "elems b ! offset (shape b) (bc_index (shape b) idx) = c"
      using bc_nth_in_set [OF assms(3,2)] assms(4) by blast
    then show "f (elems a ! offset (shape a) idx)
                 (elems b ! offset (shape b) (bc_index (shape b) idx)) =
               f (elems a ! offset (shape a) idx) c" by simp
  qed simp
  also have "\<dots> = map (\<lambda>x. f x c) (map (\<lambda>idx. elems a ! offset (shape a) idx) (indices (shape a)))"
    by (simp add: comp_def)
  also have "\<dots> = map (\<lambda>x. f x c) (elems a)"
    using assms(1) by (simp add: nth_offset_indices wf_tensor_def)
  finally show ?thesis
    by (simp add: broadcast_op_fits [OF assms(3)])
qed

lemma map2_maps: "map2 f (map g xs) (map h xs) = map (\<lambda>x. f (g x) (h x)) xs"
  by (induction xs) simp_all

lemma broadcast_op_same:
  assumes "wf_tensor a" "wf_tensor b" "shape b = shape a"
  shows "broadcast_op f a b = Inr \<lparr>shape = shape a, elems = map2 f (elems a) (elems b)\<rparr>"
proof -
  have fit: "fits (shape b) (shape a)" by (simp add: assms(3) fits_refl)
  have "map (\<lambda>idx. f (elems a ! offset (shape a) idx)
                     (elems b ! offset (shape b) (bc_index (shape b) idx))) (indices (shape a)) =
        map (\<lambda>idx. f (elems a ! offset (shape a) idx) (elems b ! offset (shape a) idx))
            (indices (shape a))"
    by (rule map_cong) (simp_all add: assms(3) bc_index_same indices_bound)
  also have "\<dots> = map2 f (map (\<lambda>idx. elems a ! offset (shape a) idx) (indices (shape a)))
                          (map (\<lambda>idx. elems b ! offset (shape a) idx) (indices (shape a)))"
    by (simp only: map2_maps)
  also have "\<dots> = map2 f (elems a) (elems b)"
    using assms by (simp add: nth_offset_indices wf_tensor_def)
  finally show ?thesis
    by (simp add: broadcast_op_fits [OF fit])
qed

subsection \<open>Rotary embedding\<close>

lemma squeeze_table:
  assumes "shape t = [1, 1, len, dim]"
  shows "bind_e (squeeze 1 t) (squeeze 0) = Inr \<lparr>shape = [len, dim], elems = elems t\<rparr>"
  by (simp add: squeeze_def assms)

lemma index_table:
  assumes "shape pos = [pb, ps]" "\<forall>i\<in>set (elems pos). - int len \<le> i \<and> i < int len"
  shows "bind_e (index_rows \<lparr>shape = [len, dim], elems = e\<rparr> (Some pos)) (unsqueeze 1) =
           Inr \<lparr>shape = [pb, 1, ps, dim], elems = gather len dim e (elems pos)\<rparr>"
  using assms by (simp add: index_rows_def unsqueeze_def gather_def Let_def)

lemma gather_length:
  assumes "length e = len * dim" "\<forall>i\<in>set ps. - int len \<le> i \<and> i < int len"
  shows "length (gather len dim e ps) = length ps * dim"
proof -
  let ?f = "\<lambda>i. take dim (drop (nat (if i < 0 then i + int len else i) * dim) e)"
  have "length (?f i) = dim" if "i \<in> set ps" for i
  proof -
    from that have b: "- int len \<le> i" "i < int len" using assms(2) by auto
    define j where "j = nat (if i < 0 then i + int len else i)"
    have "j < len" using b by (auto simp: j_def)
    then have "Suc j * dim \<le> len * dim" by (simp only: mult_le_mono1 Suc_leI)
    then have "dim \<le> len * dim - j * dim" by simp
    then show ?thesis by (simp add: j_def [symmetric] assms(1))
  qed
  then have "\<forall>r\<in>set (map ?f ps). length r = dim" by simp
  from length_concat_rows [OF this] show ?thesis
    by (simp add: gather_def)
qed

lemma gather_row0:
  assumes "\<forall>i\<in>set ps. i = 0" "take dim e = replicate dim c"
  shows "\<forall>x\<in>set (gather len dim e ps). x = c"
  using assms by (auto simp: gather_def)

lemma set_rot: "set (rot h r) \<subseteq> set r \<union> uminus ` set r"
  by (auto simp: rot_def dest: in_set_dropD in_set_takeD)

lemma rotate_half_set:
  assumes "wf_tensor x" "shape x \<noteq> []" "rotate_half x = Inr y"
  shows "set (elems y) \<subseteq> set (elems x) \<union> uminus ` set (elems x)"
proof
  fix e assume "e \<in> set (elems y)"
  with rotate_half_rows [OF assms(1,2)] assms(3)
  obtain r where r: "r \<in> set (rows (prod_list (butlast (shape x))) (last (shape x)) (elems x))"
    and e: "e \<in> set (rot (last (shape x) div 2) r)"
    by auto
  from r have "set r \<subseteq> set (elems x)"
    by (auto simp: rows_def dest: in_set_takeD in_set_dropD)
  with e set_rot [of "last (shape x) div 2" r] show "e \<in> set (elems x) \<union> uminus ` set (elems x)"
    by auto
qed

lemma neutral_sum:
  "length xs = length ys \<Longrightarrow> \<forall>a\<in>set xs. \<forall>b\<in>set ys. a * c + b * z = a \<Longrightarrow>
     map2 (+) (map (\<lambda>a. a * c) xs) (map (\<lambda>b. b * z) ys) = xs"
  by (induction xs ys rule: list_induct2) simp_all

lemma rotary_one:
  fixes x :: "'a::{zero, one, uminus, times, plus} tensor"
  assumes "wf_tensor x" "shape x \<noteq> []" "wf_tensor cg" "wf_tensor sg"
    and "fits (shape cg) (shape x)" "fits (shape sg) (shape x)"
  shows "\<exists>y. bind_e (mul x cg) (\<lambda>xc. bind_e (bind_e (rotate_half x) (\<lambda>rx. mul rx sg)) (add xc)) = Inr y \<and>
           shape y = shape x \<and>
           ((\<forall>e\<in>set (elems cg). e = 1) \<and> (\<forall>e\<in>set (elems sg). e = 0) \<and> rotary_neutral x
              \<longrightarrow> y = x)"
proof -
  obtain xc where xc: "mul x cg = Inr xc" "shape xc = shape x" "wf_tensor xc"
    using broadcast_op_shape [OF assms(5)] unfolding mul_def by blast
  obtain rx where rx: "rotate_half x = Inr rx" "shape rx = shape x" "wf_tensor rx"
    using rotate_half_wf [OF assms(1,2)] by blast
  have frx: "fits (shape sg) (shape rx)" using assms(6) rx(2) by simp
  then obtain xs where xs: "mul rx sg = Inr xs" "shape xs = shape x" "wf_tensor xs"
    using broadcast_op_shape [of sg rx] rx(2) unfolding mul_def by metis
  have same: "shape xs = shape xc" by (simp add: xs(2) xc(2))
  have y: "add xc xs = Inr \<lparr>shape = shape xc, elems = map2 (+) (elems xc) (elems xs)\<rparr>"
    unfolding add_def by (rule broadcast_op_same [OF xc(3) xs(3) same])
  let ?y = "\<lparr>shape = shape xc, elems = map2 (+) (elems xc) (elems xs)\<rparr>"
  have res: "bind_e (mul x cg) (\<lambda>xc. bind_e (bind_e (rotate_half x) (\<lambda>rx. mul rx sg)) (add xc)) = Inr ?y"
    by (simp add: xc rx xs y)
  have "?y = x"
    if one: "\<forall>e\<in>set (elems cg). e = 1" and zero: "\<forall>e\<in>set (elems sg). e = 0"
      and neutral: "rotary_neutral x"
  proof -
    have "mul x cg = Inr \<lparr>shape = shape x, elems = map (\<lambda>a. a * 1) (elems x)\<rparr>"
      unfolding mul_def by (rule broadcast_op_const [OF assms(1,3,5) one])
    with xc have 1: "elems xc = map (\<lambda>a. a * 1) (elems x)" by auto
    have "mul rx sg = Inr \<lparr>shape = shape rx, elems = map (\<lambda>b. b * 0) (elems rx)\<rparr>"
      unfolding mul_def by (rule broadcast_op_const [OF rx(3) assms(4) frx zero])
    with xs have 2: "elems xs = map (\<lambda>b. b * 0) (elems rx)" by auto
    have len: "length (elems x) = length (elems rx)"
      using assms(1) rx(2,3) by (simp add: wf_tensor_def)
    have "\<forall>a\<in>set (elems x). \<forall>b\<in>set (elems rx). a * 1 + b * 0 = a"
      using rotate_half_set [OF assms(1,2) rx(1)] neutral
      by (auto simp: rotary_neutral_def)
    from neutral_sum [OF len this] have "map2 (+) (elems xc) (elems xs) = elems x"
      by (simp only: 1 2)
    then show ?thesis by (simp add: xc(2))
  qed
  with res xc(2) show ?thesis by auto
qed

lemma ring_neutral: "rotary_neutral (x :: 'a::ring_1 tensor)"
  by (simp add: rotary_neutral_def)

lemma finite_neutral:
  assumes "\<forall>a\<in>set (elems x). is_finite a"
  shows "rotary_neutral x"
  unfolding rotary_neutral_def
proof (intro ballI)
  fix a b assume "a \<in> set (elems x)" "b \<in> set (elems x)"
  with assms have "is_finite a" "is_finite b" by auto
  then obtain n m where "a = Fin n" "b = Fin m"
    by (cases a; cases b) auto
  then show "a * 1 + b * 0 = a \<and> a * 1 + (- b) * 0 = a"
    by (simp add: zero_fl_def one_fl_def)
qed

text \<open>
  C5, as stated, fails in two ways. For query and key of shape \<open>[1, 1, 1, 2]\<close>, a table
  whose only row is cosine 1 and sine 0, and the position index \<open>[[0], [0]]\<close> of shape
  \<open>[2, 1]\<close>, the selected rows have shape \<open>[2, 1, 1, 2]\<close> and broadcasting gives outputs
  of that shape, which are neither of the shape of the inputs nor equal to them. And for
  the query \<open>[inf, 6]\<close> at position 0 of the same table the rotated half \<open>[- 6, inf]\<close>
  times sine 0 is \<open>[0, nan]\<close>, so the returned query is \<open>[inf, nan]\<close>.
\<close>

theorem rotary_output_differs:
  "apply_rotary_pos_emb \<lparr>shape = [1, 1, 1, 2], elems = [5, 6 :: int]\<rparr>
     \<lparr>shape = [1, 1, 1, 2], elems = [7, 8]\<rparr>
     \<lparr>shape = [1, 1, 1, 2], elems = [1, 1]\<rparr> \<lparr>shape = [1, 1, 1, 2], elems = [0, 0]\<rparr>
     (Some \<lparr>shape = [2, 1], elems = [0, 0]\<rparr>) =
   Inr (\<lparr>shape = [2, 1, 1, 2], elems = [5, 6, 5, 6]\<rparr>,
        \<lparr>shape = [2, 1, 1, 2], elems = [7, 8, 7, 8]\<rparr>) \<and>
   apply_rotary_pos_emb \<lparr>shape = [1, 1, 1, 2], elems = [PInf, Fin 6]\<rparr>
     \<lparr>shape = [1, 1, 1, 2], elems = [Fin 7, Fin 8]\<rparr>
     \<lparr>shape = [1, 1, 1, 2], elems = [1, 1]\<rparr> \<lparr>shape = [1, 1, 1, 2], elems = [0, 0]\<rparr>
     (Some \<lparr>shape = [1, 1], elems = [0]\<rparr>) =
   Inr (\<lparr>shape = [1, 1, 1, 2], elems = [PInf, NaN]\<rparr>,
        \<lparr>shape = [1, 1, 1, 2], elems = [Fin 7, Fin 8]\<rparr>)"
  by code_simp

text \<open>
  C5, amended. For query and key of shapes \<open>[bs, nh, seq, dim]\<close> and
  \<open>[bs, nk, seq, dim]\<close>, tables of shape \<open>[1, 1, len, dim]\<close> and a position index of
  shape \<open>[pb, ps]\<close> with \<open>pb\<close> either \<open>bs\<close> or 1, \<open>ps\<close> either \<open>seq\<close> or 1 and
  entries in range of the table, \<^verbatim>\<open>apply_rotary_pos_emb\<close> returns outputs of the shapes
  of its inputs, whatever the entries and their arithmetic; and when moreover every position
  index is 0, row 0 of the table is cosine 1 and sine 0, and the entries of the query and of
  the key are neutral in the sense of \<open>rotary_neutral\<close> (as finite numbers are), the outputs
  are the inputs.
\<close>

theorem apply_rotary_shapes:
  fixes q k :: "'a::{zero, one, uminus, times, plus} tensor"
  assumes "wf_tensor q" "wf_tensor k" "wf_tensor cos" "wf_tensor sin" "wf_tensor pos"
    and "shape q = [bs, nh, seq, dim]" "shape k = [bs, nk, seq, dim]"
    and "shape cos = [1, 1, len, dim]" "shape sin = [1, 1, len, dim]"
    and "shape pos = [pb, ps]" "pb = bs \<or> pb = 1" "ps = seq \<or> ps = 1"
    and "\<forall>i\<in>set (elems pos). - int len \<le> i \<and> i < int len"
  shows "\<exists>q' k'. apply_rotary_pos_emb q k cos sin (Some pos) = Inr (q', k') \<and>
           shape q' = shape q \<and> shape k' = shape k \<and>
           ((\<forall>i\<in>set (elems pos). i = 0) \<and> take dim (elems cos) = replicate dim 1 \<and>
             take dim (elems sin) = replicate dim 0 \<and> rotary_neutral q \<and> rotary_neutral k
              \<longrightarrow> q' = q \<and> k' = k)"
proof -
  let ?cg = "\<lparr>shape = [pb, 1, ps, dim], elems = gather len dim (elems cos) (elems pos)\<rparr>"
  let ?sg = "\<lparr>shape = [pb, 1, ps, dim], elems = gather len dim (elems sin) (elems pos)\<rparr>"
  have lp: "length (elems pos) = pb * ps"
    using assms(5,10) by (simp add: wf_tensor_def)
  have lc: "length (elems cos) = len * dim" and ls: "length (elems sin) = len * dim"
    using assms(3,4,8,9) by (simp_all add: wf_tensor_def)
  have wfc: "wf_tensor ?cg" and wfs: "wf_tensor ?sg"
    using gather_length [OF lc assms(13)] gather_length [OF ls assms(13)] lp
    by (simp_all add: wf_tensor_def)
  have fq: "fits (shape ?cg) (shape q)" "fits (shape ?sg) (shape q)"
    and fk: "fits (shape ?cg) (shape k)" "fits (shape ?sg) (shape k)"
    using assms(11,12) by (auto simp: fits_def assms(6,7))
  have nq: "shape q \<noteq> []" and nk: "shape k \<noteq> []"
    by (simp_all add: assms(6,7))
  obtain q' where q': "bind_e (mul q ?cg) (\<lambda>xc. bind_e (bind_e (rotate_half q) (\<lambda>rx. mul rx ?sg)) (add xc)) = Inr q'"
      "shape q' = shape q"
      "(\<forall>e\<in>set (elems ?cg). e = 1) \<and> (\<forall>e\<in>set (elems ?sg). e = 0) \<and> rotary_neutral q \<longrightarrow> q' = q"
    using rotary_one [OF assms(1) nq wfc wfs fq] by blast
  obtain k' where k': "bind_e (mul k ?cg) (\<lambda>xc. bind_e (bind_e (rotate_half k) (\<lambda>rx. mul rx ?sg)) (add xc)) = Inr k'"
      "shape k' = shape k"
      "(\<forall>e\<in>set (elems ?cg). e = 1) \<and> (\<forall>e\<in>set (elems ?sg). e = 0) \<and> rotary_neutral k \<longrightarrow> k' = k"
    using rotary_one [OF assms(2) nk wfc wfs fk] by blast
  have res: "apply_rotary_pos_emb q k cos sin (Some pos) = Inr (q', k')"
    unfolding apply_rotary_pos_emb_def
    by (simp only: squeeze_table [OF assms(8)] squeeze_table [OF assms(9)]
          index_table [OF assms(10,13)] bind_e_simps q'(1) k'(1))
  have "q' = q \<and> k' = k"
    if "\<forall>i\<in>set (elems pos). i = 0" "take dim (elems cos) = replicate dim 1"
       "take dim (elems sin) = replicate dim 0" "rotary_neutral q" "rotary_neutral k"
  proof -
    have "\<forall>e\<in>set (elems ?cg). e = 1" "\<forall>e\<in>set (elems ?sg). e = 0"
      using gather_row0 [OF that(1,2)] gather_row0 [OF that(1,3)] by simp_all
    then show ?thesis using q'(3) k'(3) that(4,5) by blast
  qed
  with res q'(2) k'(2) show ?thesis by blast
qed

theorem apply_rotary_shapes_witness:
  "apply_rotary_pos_emb \<lparr>shape = [1, 1, 2, 2], elems = [Fin 5, Fin (- 6), Fin 0, Fin 8]\<rparr>
     \<lparr>shape = [1, 1, 2, 2], elems = [Fin 1, Fin 2, Fin 3, Fin 4]\<rparr>
     \<lparr>shape = [1, 1, 2, 2], elems = [1, 1, Fin 2, Fin 2]\<rparr>
     \<lparr>shape = [1, 1, 2, 2], elems = [0, 0, 1, 1]\<rparr>
     (Some \<lparr>shape = [1, 2], elems = [0, 0]\<rparr>) =
   Inr (\<lparr>shape = [1, 1, 2, 2], elems = [Fin 5, Fin (- 6), Fin 0, Fin 8]\<rparr>,
        \<lparr>shape = [1, 1, 2, 2], elems = [Fin 1, Fin 2, Fin 3, Fin 4]\<rparr>)"
proof -
  let ?q = "\<lparr>shape = [1, 1, 2, 2], elems = [Fin 5, Fin (- 6), Fin 0, Fin 8]\<rparr>"
  let ?k = "\<lparr>shape = [1, 1, 2, 2], elems = [Fin 1, Fin 2, Fin 3, Fin 4]\<rparr>"
  let ?c = "\<lparr>shape = [1, 1, 2, 2], elems = [1, 1, Fin 2, Fin 2]\<rparr>"
  let ?s = "\<lparr>shape = [1, 1, 2, 2], elems = [0, 0, 1, 1 :: fl]\<rparr>"
  let ?p = "\<lparr>shape = [1, 2], elems = [0, 0 :: int]\<rparr>"
  have wf: "wf_tensor ?q" "wf_tensor ?k" "wf_tensor ?c" "wf_tensor ?s" "wf_tensor ?p"
    by (simp_all add: wf_tensor_def)
  have sh: "shape ?q = [1, 1, 2, 2]" "shape ?k = [1, 1, 2, 2]" "shape ?c = [1, 1, 2, 2]"
      "shape ?s = [1, 1, 2, 2]" "shape ?p = [1, 2]"
    by simp_all
  have b: "(1::nat) = 1 \<or> (1::nat) = 1" "(2::nat) = 2 \<or> (2::nat) = 1" by simp_all
  have r: "\<forall>i\<in>set (elems ?p). - int 2 \<le> i \<and> i < int 2" by simp
  have z: "\<forall>i\<in>set (elems ?p). i = 0" "take 2 (elems ?c) = replicate 2 1"
      "take 2 (elems ?s) = replicate 2 0"
    by (simp_all add: numeral_2_eq_2)
  have n: "rotary_neutral ?q" "rotary_neutral ?k"
    by (simp_all add: rotary_neutral_def zero_fl_def one_fl_def)
  from apply_rotary_shapes [OF wf sh b r] z n show ?thesis
    by auto
qed

end
